theory Spec2Isabelle
  imports Complex_Main
begin

section \<open>Python values, errors and observable effects\<close>

text \<open>
  A Python \<open>str\<close> is a sequence of code points, and \<open>len\<close>, \<open>sorted\<close> and \<open>==\<close> on
  single-character strings work on code points. A symbol is therefore a natural number
  (its code point) and a string a list of symbols; the sentinels \<open>'\0'\<close>, \<open>'\1'\<close> and
  \<open>'\2'\<close> are the code points 0, 1 and 2. \<open>lit\<close> turns an ASCII literal of the source
  into such a string.
\<close>

type_synonym symbol = nat
type_synonym pystr = "symbol list"

definition lit :: "string \<Rightarrow> pystr" where
  "lit cs = map of_char cs"

text \<open>The exceptions that the modelled code can raise; \<open>exit(1)\<close> raises \<open>SystemExit\<close>.\<close>

datatype py_error = KeyError | IndexError | TypeError | ValueError | AttributeError
  | SystemExit nat

definition bind_err :: "py_error + 'a \<Rightarrow> ('a \<Rightarrow> py_error + 'b) \<Rightarrow> py_error + 'b" where
  "bind_err r f = (case r of Inl e \<Rightarrow> Inl e | Inr x \<Rightarrow> f x)"

text \<open>\<open>str(n)\<close> for a non-negative integer: its decimal digits.\<close>

fun str_nat :: "nat \<Rightarrow> pystr" where
  "str_nat n = (if n < 10 then [48 + n] else str_nat (n div 10) @ [48 + n mod 10])"

declare str_nat.simps [simp del]

text \<open>
  The process-wide logger and the weight files are the observable effects. A method that
  logs returns the list of effects it caused, in order, next to its result, also when it
  raises. A record given to the logger is kept as its level and its message; a message
  built with \<open>'...'.format(args)\<close> is kept as the template and the arguments, because
  several arguments are lists and dictionaries that Python would print with \<open>repr\<close>.
\<close>

datatype level = INFO | ERROR | TESTRESULT

datatype py_val = PyNone | PyInt nat | PyStr pystr | PyChars "symbol list"
  | PyCharToInt "symbol \<rightharpoonup> nat" | PyIntToChar "nat \<rightharpoonup> symbol"

datatype message = Plain pystr | Formatted pystr "py_val list" | ExceptionClass

datatype event = Log level message | SaveWeights pystr

type_synonym 'a io = "event list \<times> (py_error + 'a)"

definition then_io :: "'a io \<Rightarrow> ('a \<Rightarrow> 'b io) \<Rightarrow> 'b io" where
  "then_io m f =
     (case m of
        (evs, Inl e) \<Rightarrow> (evs, Inl e)
      | (evs, Inr x) \<Rightarrow> (case f x of (evs', r) \<Rightarrow> (evs @ evs', r)))"

section \<open>The session object and its collaborators\<close>

text \<open>
  A one-hot tensor of shape \<open>(rows, columns)\<close> is a list of rows. \<open>numpy.zeros\<close> makes
  float entries; the code only ever stores 0 and 1 in them and compares them with 1.
\<close>

type_synonym onehot = "real list list"

definition zeros :: "nat \<Rightarrow> nat \<Rightarrow> onehot" where
  "zeros rows cols = replicate rows (replicate cols 0)"

text \<open>
  The Keras model is opaque: \<open>build_model\<close> stands for the construction in
  \<open>build_architecture\<close> (mask value, sequence length, vocabulary size), \<open>fit\<close> for
  \<open>model.fit(features, targets, batch_size)\<close>, and \<open>predict\<close> for
  \<open>model.predict(t)[0]\<close> on a batch holding the single tensor \<open>t\<close>. \<open>timestamp i\<close> is
  what \<open>datetime.datetime.now().strftime('%y-%m-%d_%I:%M')\<close> returns when it is read in
  epoch \<open>i\<close>.
\<close>

record 'm external =
  build_model :: "nat \<Rightarrow> nat \<Rightarrow> nat \<Rightarrow> 'm"
  fit :: "'m \<Rightarrow> onehot list \<Rightarrow> onehot list \<Rightarrow> nat \<Rightarrow> 'm"
  predict :: "'m \<Rightarrow> onehot \<Rightarrow> onehot"
  timestamp :: "nat \<Rightarrow> pystr"

text \<open>
  What \<open>open\<close> and \<open>json.load\<close> give for a path: \<open>Unreadable\<close> when either raises;
  otherwise the entries of the JSON array. An entry is \<open>Text t\<close> when \<open>line['text']\<close> is
  the string \<open>t\<close>; \<open>Sized n\<close> when \<open>line['text']\<close> is a value that is not a string but has
  the length \<open>n\<close> (a JSON array or object), so that \<open>len\<close> accepts it and \<open>'\1' + ...\<close>
  raises \<open>TypeError\<close>; and \<open>NoText\<close> when evaluating \<open>len(line['text'])\<close> raises (the
  key is missing, or the value is a number, a boolean or null).
\<close>

datatype entry = Text pystr | Sized nat | NoText

datatype dataset_file = Unreadable | Records "entry list"

type_synonym file_system = "pystr \<Rightarrow> dataset_file"

text \<open>The fields of \<open>RecurrentNet\<close>; \<open>None\<close> is Python's \<open>None\<close>.\<close>

record 'm net =
  model :: "'m option"
  data :: "pystr list option"
  unique_char_set :: "symbol list option"
  max_string_length :: nat
  char_to_int_dict :: "symbol \<rightharpoonup> nat"
  int_to_char_dict :: "nat \<rightharpoonup> symbol"

text \<open>The assignments at the start of \<open>__init__\<close>.\<close>

definition init_fields :: "'m net" where
  "init_fields =
     \<lparr>model = None, data = None, unique_char_set = None, max_string_length = 0,
      char_to_int_dict = Map.empty, int_to_char_dict = Map.empty\<rparr>"

section \<open>import_data\<close>

text \<open>
  The first loop of the \<open>try\<close> block: \<open>self.max_string_length\<close> is raised to the length
  of every entry seen. \<open>Inr m\<close> is the value after the loop; \<open>Inl m\<close> is the value the
  field holds when \<open>len(line['text'])\<close> raises.
\<close>

fun scan_lengths :: "entry list \<Rightarrow> nat \<Rightarrow> nat + nat" where
  "scan_lengths [] m = Inr m"
| "scan_lengths (NoText # ls) m = Inl m"
| "scan_lengths (Text text # ls) m =
     scan_lengths ls (if length text > m then length text else m)"
| "scan_lengths (Sized n # ls) m =
     scan_lengths ls (if n > m then n else m)"

text \<open>
  The second loop: \<open>'\1' + text + '\2' + '\0'\<close> for every record; \<open>None\<close> when an entry
  makes it raise, which leaves \<open>self.data\<close> unassigned.
\<close>

definition wrap_record :: "pystr \<Rightarrow> pystr" where
  "wrap_record text = [1] @ text @ [2] @ [0]"

fun wrap_records :: "entry list \<Rightarrow> pystr list option" where
  "wrap_records [] = Some []"
| "wrap_records (NoText # ls) = None"
| "wrap_records (Sized n # ls) = None"
| "wrap_records (Text text # ls) = map_option ((#) (wrap_record text)) (wrap_records ls)"

definition error_reading_file :: "event list" where
  "error_reading_file =
     [Log ERROR (Plain (lit ''Error reading file.'')), Log ERROR ExceptionClass]"

text \<open>
  The \<open>try\<close> block with its handler: every exception is logged and swallowed, and the
  method returns normally with the fields as they are at that moment.
\<close>

definition read_dataset :: "file_system \<Rightarrow> pystr \<Rightarrow> 'm net \<Rightarrow> 'm net io" where
  "read_dataset fs file_location s =
     (case fs file_location of
        Unreadable \<Rightarrow> (error_reading_file, Inr s)
      | Records dataset_import \<Rightarrow>
          (case scan_lengths dataset_import (max_string_length s) of
             Inl m \<Rightarrow> (error_reading_file, Inr (s\<lparr>max_string_length := m\<rparr>))
           | Inr m \<Rightarrow>
               (case wrap_records dataset_import of
                  None \<Rightarrow>
                    (Log INFO (Formatted (lit ''Max record length: {0}'') [PyInt (m + 3)])
                       # error_reading_file,
                     Inr (s\<lparr>max_string_length := m + 3\<rparr>))
                | Some dataset \<Rightarrow>
                    ([Log INFO (Formatted (lit ''Max record length: {0}'') [PyInt (m + 3)])],
                     Inr (s\<lparr>max_string_length := m + 3, data := Some dataset\<rparr>)))))"

text \<open>The choice of the file, and \<open>exit(1)\<close> for an unknown data source.\<close>

definition select_source :: "pystr \<Rightarrow> pystr io" where
  "select_source data_source =
     (if data_source = lit ''trump'' then
        ([Log INFO (Plain (lit ''Using Trump Tweet Dataset.''))],
         Inr (lit ''Documents/trump_tweets_2017.json''))
      else if data_source = lit ''alice'' then
        ([Log INFO (Plain (lit ''Using Alice in Wonderland Dataset.''))],
         Inr (lit ''Documents/alice.json''))
      else ([Log ERROR (Plain (lit ''Unknown data source.''))], Inl (SystemExit 1)))"

definition import_data :: "file_system \<Rightarrow> pystr \<Rightarrow> 'm net \<Rightarrow> 'm net io" where
  "import_data fs data_source s =
     then_io (select_source data_source) (\<lambda>file_location. read_dataset fs file_location s)"

section \<open>get_character_set and remove_extra_characters\<close>

text \<open>
  The two \<open>enumerate\<close> loops. Both write into the dictionary the object already has.
\<close>

definition fill_char_to_int :: "symbol list \<Rightarrow> (symbol \<rightharpoonup> nat) \<Rightarrow> (symbol \<rightharpoonup> nat)" where
  "fill_char_to_int u d = fold (\<lambda>(enumeration, value) m. m(value \<mapsto> enumeration)) (enumerate 0 u) d"

definition fill_int_to_char :: "symbol list \<Rightarrow> (nat \<rightharpoonup> symbol) \<Rightarrow> (nat \<rightharpoonup> symbol)" where
  "fill_int_to_char u d = fold (\<lambda>(value, enumeration) m. m(value \<mapsto> enumeration)) (enumerate 0 u) d"

text \<open>
  \<open>sorted(list(set(dataset_string)))\<close> is the sorted list of the distinct symbols.
  \<open>''.join(None)\<close> raises \<open>TypeError\<close>.
\<close>

definition get_character_set :: "'m net \<Rightarrow> 'm net io" where
  "get_character_set s =
     (case data s of
        None \<Rightarrow> ([], Inl TypeError)
      | Some d \<Rightarrow>
          (let dataset_string = concat d;
               u = sort (remdups dataset_string);
               c2i = fill_char_to_int u (char_to_int_dict s);
               i2c = fill_int_to_char u (int_to_char_dict s)
           in ([Log INFO (Formatted (lit ''Total Characters: {0}'') [PyInt (length dataset_string)]),
                Log INFO (Formatted (lit ''Total Records: {0}'') [PyInt (length d)]),
                Log INFO (Formatted (lit ''Unique Char Set: {0}'') [PyChars u]),
                Log INFO (Formatted (lit ''Unique Char Count: {0}'') [PyInt (length u)]),
                Log INFO (Formatted (lit ''Char to Int Dict: {0}'') [PyCharToInt c2i]),
                Log INFO (Formatted (lit ''Int to Char Dict: {0}'') [PyIntToChar i2c]),
                Log INFO (Plain []),
                Log INFO (Plain [])],
               Inr (s\<lparr>unique_char_set := Some u, char_to_int_dict := c2i,
                       int_to_char_dict := i2c\<rparr>))))"

text \<open>
  The \<open>for char in self.unique_char_set\<close> loop of \<open>remove_extra_characters\<close>. Python's
  list iterator keeps a position \<open>i\<close>: it stops when \<open>i\<close> reaches the current length of
  the list, and otherwise yields element \<open>i\<close> and moves on to \<open>i + 1\<close>, whatever the body
  did to the list. \<open>list.remove\<close> deletes the first equal element.
\<close>

function prune_loop :: "pystr \<Rightarrow> nat \<Rightarrow> symbol list \<Rightarrow> nat \<Rightarrow> symbol list" where
  "prune_loop dataset_string min_required_count xs i =
     (if i < length xs then
        (if count_list dataset_string (xs ! i) < min_required_count
         then prune_loop dataset_string min_required_count (remove1 (xs ! i) xs) (Suc i)
         else prune_loop dataset_string min_required_count xs (Suc i))
      else xs)"
  by pat_completeness auto
termination
  by (relation "measure (\<lambda>(dataset_string, min_required_count, xs, i). length xs - i)")
     (auto simp: length_remove1)

declare prune_loop.simps [simp del]

definition remove_extra_characters :: "pystr \<Rightarrow> nat \<Rightarrow> 'm net \<Rightarrow> 'm net io" where
  "remove_extra_characters dataset_string min_required_count s =
     (case unique_char_set s of
        None \<Rightarrow>
          ([Log INFO (Formatted (lit ''Unique Char Set Before Removal: {0}'') [PyNone])],
           Inl TypeError)
      | Some u \<Rightarrow>
          (let u' = prune_loop dataset_string min_required_count u 0
           in ([Log INFO (Formatted (lit ''Unique Char Set Before Removal: {0}'') [PyChars u]),
                Log INFO (Formatted (lit ''Unique Char Count Before Removal: {0}'') [PyInt (length u)]),
                Log INFO (Formatted (lit ''Unique Char Count After Removal: {0}'') [PyInt (length u')]),
                Log INFO (Formatted (lit ''Unique Char Set After Removal: {0}'') [PyChars u'])],
               Inr (s\<lparr>unique_char_set := Some u'\<rparr>))))"

section \<open>build_architecture and the constructor\<close>

text \<open>
  Only the reads of the object's fields can raise here: \<open>self.char_to_int_dict['\0']\<close>
  is evaluated first, then \<open>len(self.unique_char_set)\<close>. \<open>model.summary()\<close> prints to
  the standard output and logs nothing.
\<close>

definition build_architecture :: "'m external \<Rightarrow> 'm net \<Rightarrow> py_error + 'm net" where
  "build_architecture k s =
     (case char_to_int_dict s 0 of
        None \<Rightarrow> Inl KeyError
      | Some mask_value \<Rightarrow>
          (case unique_char_set s of
             None \<Rightarrow> Inl TypeError
           | Some u \<Rightarrow>
               Inr (s\<lparr>model := Some (build_model k mask_value (max_string_length s) (length u))\<rparr>)))"

definition RecurrentNet :: "'m external \<Rightarrow> file_system \<Rightarrow> pystr \<Rightarrow> 'm net io" where
  "RecurrentNet k fs data_source =
     then_io ([Log INFO (Plain (lit ''Starting Recurrent Net.''))], Inr init_fields) (\<lambda>s0.
     then_io (import_data fs data_source s0) (\<lambda>s1.
     then_io (get_character_set s1) (\<lambda>s2.
     ([], build_architecture k s2))))"

section \<open>One-hot encoding\<close>

text \<open>
  The loop of \<open>convert_to_onehot\<close>, \<open>new_onehot[char_index][sequence[char_index]] = 1\<close>
  for \<open>char_index\<close> in \<open>range(len(sequence))\<close>: the first argument is the part of the
  sequence still to be written. An index outside the array raises \<open>IndexError\<close>.
\<close>

fun set_entries :: "nat list \<Rightarrow> nat \<Rightarrow> onehot \<Rightarrow> py_error + onehot" where
  "set_entries [] char_index new_onehot = Inr new_onehot"
| "set_entries (v # vs) char_index new_onehot =
     (if char_index < length new_onehot \<and> v < length (new_onehot ! char_index)
      then set_entries vs (Suc char_index)
             (new_onehot[char_index := (new_onehot ! char_index)[v := 1]])
      else Inl IndexError)"

definition convert_to_onehot :: "'m net \<Rightarrow> nat list \<Rightarrow> py_error + onehot" where
  "convert_to_onehot s sequence =
     (case unique_char_set s of
        None \<Rightarrow> Inl TypeError
      | Some u \<Rightarrow> set_entries sequence 0 (zeros (max_string_length s) (length u)))"

text \<open>
  \<open>append_onehot\<close>: the new row is built outside the \<open>try\<close>, so a missing key or a
  column out of range raises. The assignment \<open>old_onehot[0][row_index] = new_row\<close> is
  inside it. A row index outside the tensor raises \<open>IndexError\<close>, which the handler
  absorbs: the tensor stays as it is. Inside the tensor, numpy broadcasts the new row, of
  shape \<open>(1, |vocabulary|)\<close>, into the row it assigns to: a row of the same width is
  replaced by it; when the new row has a single entry, that entry fills a row of any
  width; and any other width raises \<open>ValueError\<close>, which the handler does not catch. The
  tensor is the element 0 of the batch \<open>old_onehot\<close>.
\<close>

definition append_onehot :: "'m net \<Rightarrow> onehot \<Rightarrow> nat \<Rightarrow> symbol \<Rightarrow> py_error + onehot" where
  "append_onehot s old_onehot row_index char =
     (case unique_char_set s of
        None \<Rightarrow> Inl TypeError
      | Some u \<Rightarrow>
          (case char_to_int_dict s char of
             None \<Rightarrow> Inl KeyError
           | Some j \<Rightarrow>
               (if j < length u then
                  (let new_row = (replicate (length u) 0)[j := 1]
                   in if row_index < length old_onehot then
                        (let width = length (old_onehot ! row_index)
                         in if length new_row = width
                            then Inr (old_onehot[row_index := new_row])
                            else if length new_row = 1
                            then Inr (old_onehot[row_index := replicate width (new_row ! 0)])
                            else Inl ValueError)
                      else Inr old_onehot)
                else Inl IndexError)))"

section \<open>train: the tensors\<close>

text \<open>The list of indices of a record, \<open>self.char_to_int_dict[char]\<close> for every char.\<close>

fun input_sequence :: "(symbol \<rightharpoonup> nat) \<Rightarrow> pystr \<Rightarrow> py_error + nat list" where
  "input_sequence c2i [] = Inr []"
| "input_sequence c2i (char # rest) =
     (case c2i char of
        None \<Rightarrow> Inl KeyError
      | Some j \<Rightarrow> bind_err (input_sequence c2i rest) (\<lambda>js. Inr (j # js)))"

text \<open>
  The target of a record: the same indices, then \<open>pop(0)\<close>, which raises \<open>IndexError\<close>
  on an empty list, then the index of \<open>'\0'\<close> appended.
\<close>

definition output_sequence :: "(symbol \<rightharpoonup> nat) \<Rightarrow> pystr \<Rightarrow> py_error + nat list" where
  "output_sequence c2i record =
     bind_err (input_sequence c2i record) (\<lambda>js.
       case js of
         [] \<Rightarrow> Inl IndexError
       | j # rest \<Rightarrow>
           (case c2i 0 of
              None \<Rightarrow> Inl KeyError
            | Some pad \<Rightarrow> Inr (rest @ [pad])))"

text \<open>
  The loop over the records, giving \<open>features\<close> and \<open>targets\<close>. Every tensor already
  has \<open>max_string_length\<close> rows, so \<open>pad_sequences\<close> with that length leaves the 0 and 1
  entries where they are.
\<close>

fun encode_records :: "'m net \<Rightarrow> pystr list \<Rightarrow> py_error + (onehot list \<times> onehot list)" where
  "encode_records s [] = Inr ([], [])"
| "encode_records s (record # rest) =
     bind_err (input_sequence (char_to_int_dict s) record) (\<lambda>js.
     bind_err (convert_to_onehot s js) (\<lambda>feature.
     bind_err (output_sequence (char_to_int_dict s) record) (\<lambda>os.
     bind_err (convert_to_onehot s os) (\<lambda>target.
     bind_err (encode_records s rest) (\<lambda>(features, targets).
       Inr (feature # features, target # targets))))))"

section \<open>generate_text\<close>

text \<open>
  \<open>numpy.argmax\<close> of a row: the index of the first greatest entry; an empty row raises
  \<open>ValueError\<close>.
\<close>

fun argmax_from :: "real list \<Rightarrow> nat \<Rightarrow> nat \<Rightarrow> real \<Rightarrow> nat" where
  "argmax_from [] i best best_value = best"
| "argmax_from (x # xs) i best best_value =
     (if best_value < x then argmax_from xs (Suc i) i x
      else argmax_from xs (Suc i) best best_value)"

definition argmax :: "real list \<Rightarrow> py_error + nat" where
  "argmax row = (case row of [] \<Rightarrow> Inl ValueError | x # xs \<Rightarrow> Inr (argmax_from xs 1 0 x))"

text \<open>
  The inner search of the decoding loop: \<open>conversion_index\<close> is the first column holding
  1, or \<open>None\<close> when the row has none.
\<close>

fun conversion_index_from :: "real list \<Rightarrow> nat \<Rightarrow> nat option" where
  "conversion_index_from [] onehot_index = None"
| "conversion_index_from (x # xs) onehot_index =
     (if x = 1 then Some onehot_index else conversion_index_from xs (Suc onehot_index))"

definition conversion_index :: "real list \<Rightarrow> nat option" where
  "conversion_index row = conversion_index_from row 0"

text \<open>
  The decoding loop over the rows. The pair is \<open>(generated_int_string,
  generated_char_string)\<close>. \<open>self.int_to_char_dict[conversion_index]\<close> raises \<open>KeyError\<close>
  for \<open>None\<close> and for an index that is not a key, and the handler leaves the loop.
\<close>

fun decode_rows :: "(nat \<rightharpoonup> symbol) \<Rightarrow> onehot \<Rightarrow> pystr \<times> pystr \<Rightarrow> pystr \<times> pystr" where
  "decode_rows i2c [] acc = acc"
| "decode_rows i2c (row # rows) (generated_int_string, generated_char_string) =
     (case conversion_index row of
        None \<Rightarrow> (generated_int_string, generated_char_string)
      | Some j \<Rightarrow>
          (case i2c j of
             None \<Rightarrow> (generated_int_string, generated_char_string)
           | Some c \<Rightarrow>
               decode_rows i2c rows
                 (generated_int_string @ str_nat j @ lit '' '', generated_char_string @ [c])))"

text \<open>
  The \<open>try\<close> block of one step: predict on the whole tensor, take the arg-max of row
  \<open>index\<close>, and write its symbol into row \<open>index + 1\<close>.
\<close>

definition predict_and_append :: "'m external \<Rightarrow> 'm net \<Rightarrow> nat \<Rightarrow> onehot \<Rightarrow> py_error + onehot" where
  "predict_and_append k s index generated_text =
     (case model s of
        None \<Rightarrow> Inl AttributeError
      | Some m \<Rightarrow>
          (let predict_value = predict k m generated_text
           in if index < length predict_value then
                bind_err (argmax (predict_value ! index)) (\<lambda>predict_value.
                  case int_to_char_dict s predict_value of
                    None \<Rightarrow> Inl KeyError
                  | Some c \<Rightarrow> append_onehot s generated_text (index + 1) c)
              else Inl IndexError))"

text \<open>\<open>except IndexError: pass\<close> around it: the tensor stays as it was.\<close>

definition generation_step :: "'m external \<Rightarrow> 'm net \<Rightarrow> nat \<Rightarrow> onehot \<Rightarrow> py_error + onehot" where
  "generation_step k s index generated_text =
     (case predict_and_append k s index generated_text of
        Inl IndexError \<Rightarrow> Inr generated_text
      | r \<Rightarrow> r)"

text \<open>
  The \<open>for index in range(self.max_string_length)\<close> loop over the indices still to
  come; the state is the tensor and the two strings, which every step builds afresh.
\<close>

fun generate_loop ::
  "'m external \<Rightarrow> 'm net \<Rightarrow> nat list \<Rightarrow> onehot \<times> pystr \<times> pystr \<Rightarrow> py_error + (onehot \<times> pystr \<times> pystr)"
where
  "generate_loop k s [] st = Inr st"
| "generate_loop k s (index # rest) (generated_text, strings) =
     bind_err (generation_step k s index generated_text) (\<lambda>generated_text'.
       generate_loop k s rest
         (generated_text', decode_rows (int_to_char_dict s) generated_text' ([], [])))"

definition generate_text :: "'m external \<Rightarrow> 'm net \<Rightarrow> (pystr \<times> pystr) io" where
  "generate_text k s =
     ([Log INFO (Plain (lit ''Attempting to generate text.''))],
      (case unique_char_set s of
         None \<Rightarrow> Inl TypeError
       | Some u \<Rightarrow>
           bind_err (append_onehot s (zeros (max_string_length s) (length u)) 0 1)
             (\<lambda>generated_text.
           bind_err (generate_loop k s [0..<max_string_length s] (generated_text, [], []))
             (\<lambda>(generated_text', strings). Inr strings))))"

section \<open>train: the epochs\<close>

text \<open>The path given to \<open>save_weights\<close>.\<close>

definition weights_path :: "nat \<Rightarrow> nat \<Rightarrow> pystr \<Rightarrow> pystr" where
  "weights_path vocabulary_size index time =
     lit ''Documents/Weights/4LSTM_Size'' @ str_nat vocabulary_size @ lit ''_atEpoch''
       @ str_nat index @ lit ''_'' @ time"

text \<open>The body of the epoch loop.\<close>

definition sample_and_log :: "'m external \<Rightarrow> nat \<Rightarrow> 'm net \<Rightarrow> unit io" where
  "sample_and_log k index s =
     (if index mod 10 = 0 then
        then_io (generate_text k s) (\<lambda>generated_values.
          ([Log TESTRESULT (Formatted (lit ''Epoch: {0}   Full Generated Int String: {1}'')
              [PyInt index, PyStr (fst generated_values)]),
            Log TESTRESULT (Formatted (lit ''Epoch: {0}   Full Generated Char String: {1}'')
              [PyInt index, PyStr (snd generated_values)])],
           Inr ()))
      else ([], Inr ()))"

definition save_checkpoint :: "'m external \<Rightarrow> nat \<Rightarrow> 'm net \<Rightarrow> unit io" where
  "save_checkpoint k index s =
     (if index mod 50 = 0 then
        (case unique_char_set s of
           None \<Rightarrow> ([], Inl TypeError)
         | Some u \<Rightarrow> ([SaveWeights (weights_path (length u) index (timestamp k index))], Inr ()))
      else ([], Inr ()))"

definition train_epoch ::
  "'m external \<Rightarrow> onehot list \<Rightarrow> onehot list \<Rightarrow> nat \<Rightarrow> 'm net \<Rightarrow> 'm net io" where
  "train_epoch k features targets index s =
     then_io
       ([Log INFO (Plain []), Log INFO (Plain []),
         Log INFO (Formatted (lit ''Epoch {0}'') [PyInt index])],
        (case model s of
           None \<Rightarrow> Inl AttributeError
         | Some m \<Rightarrow>
             Inr (s\<lparr>model := Some (fit k m features targets (max_string_length s))\<rparr>)))
       (\<lambda>s'.
     then_io (sample_and_log k index s') (\<lambda>_.
     then_io (save_checkpoint k index s') (\<lambda>_.
     ([], Inr s'))))"

fun train_loop ::
  "'m external \<Rightarrow> onehot list \<Rightarrow> onehot list \<Rightarrow> nat list \<Rightarrow> 'm net \<Rightarrow> 'm net io" where
  "train_loop k features targets [] s = ([], Inr s)"
| "train_loop k features targets (index # rest) s =
     then_io (train_epoch k features targets index s) (train_loop k features targets rest)"

definition train :: "'m external \<Rightarrow> nat \<Rightarrow> 'm net \<Rightarrow> 'm net io" where
  "train k num_epochs s =
     (case data s of
        None \<Rightarrow> ([], Inl TypeError)
      | Some d \<Rightarrow>
          (case unique_char_set s of
             None \<Rightarrow> ([], Inl TypeError)
           | Some u \<Rightarrow>
               (case encode_records s d of
                  Inl e \<Rightarrow> ([], Inl e)
                | Inr (features, targets) \<Rightarrow>
                    train_loop k features targets [0..<num_epochs] s)))"

section \<open>A small session\<close>

text \<open>
  The session of the corpus \<open>[{"text": "hi"}]\<close>, used to run the theorems below on a
  concrete input: one wrapped record \<open>'\1hi\2\0'\<close> of length 5, and the vocabulary
  \<open>['\0', '\1', '\2', 'h', 'i']\<close>. Its model predicts, at every position, the last
  symbol of the vocabulary.
\<close>

definition example_files :: file_system where
  "example_files path = Records [Text (lit ''hi'')]"

definition example_external :: "unit external" where
  "example_external =
     \<lparr>build_model = (\<lambda>mask_value rows cols. ()),
      fit = (\<lambda>m features targets batch_size. m),
      predict = (\<lambda>m t. replicate 5 [0, 0, 0, 0, 1]),
      timestamp = (\<lambda>index. lit ''18-04-01_09:30'')\<rparr>"

definition example_net :: "unit net" where
  "example_net =
     \<lparr>model = Some (), data = Some [[1, 104, 105, 2, 0]],
      unique_char_set = Some [0, 1, 2, 104, 105], max_string_length = 5,
      char_to_int_dict = fill_char_to_int [0, 1, 2, 104, 105] Map.empty,
      int_to_char_dict = fill_int_to_char [0, 1, 2, 104, 105] Map.empty\<rparr>"

section \<open>Facts about the helpers\<close>

lemma bind_err_simps [simp]:
  "bind_err (Inl e) f = Inl e"
  "bind_err (Inr x) f = f x"
  by (simp_all add: bind_err_def)

lemma then_io_simps [simp]:
  "then_io (evs, Inl e) f = (evs, Inl e)"
  "then_io (evs, Inr x) f = (evs @ fst (f x), snd (f x))"
  by (simp_all add: then_io_def split: prod.splits)

lemma then_io_Inr:
  "then_io m f = (evs, Inr y) \<longleftrightarrow>
     (\<exists>evs1 x evs2. m = (evs1, Inr x) \<and> f x = (evs2, Inr y) \<and> evs = evs1 @ evs2)"
proof (cases m)
  case (Pair evs1 r)
  show ?thesis
  proof (cases r)
    case (Inl e)
    with Pair show ?thesis by simp
  next
    case (Inr x)
    with Pair show ?thesis by (cases "f x") auto
  qed
qed

subsection \<open>The dictionaries built from a list of distinct symbols\<close>

lemma fold_char_to_int_notin:
  "c \<notin> set xs \<Longrightarrow>
   fold (\<lambda>(enumeration, value) m. m(value \<mapsto> enumeration)) (enumerate n xs) d c = d c"
  by (induction xs arbitrary: n d) (simp_all del: fun_upd_apply, simp)

lemma fold_char_to_int_nth:
  "distinct xs \<Longrightarrow> i < length xs \<Longrightarrow>
   fold (\<lambda>(enumeration, value) m. m(value \<mapsto> enumeration)) (enumerate n xs) d (xs ! i)
     = Some (n + i)"
proof (induction xs arbitrary: n d i)
  case Nil
  then show ?case by simp
next
  case (Cons x xs)
  show ?case
  proof (cases i)
    case 0
    with Cons.prems fold_char_to_int_notin [of x xs "Suc n" "d(x \<mapsto> n)"]
    show ?thesis by (simp del: fun_upd_apply) simp
  next
    case (Suc j)
    with Cons.prems Cons.IH [of j "Suc n" "d(x \<mapsto> n)"] show ?thesis
      by (simp del: fun_upd_apply)
  qed
qed

lemma fold_int_to_char:
  "fold (\<lambda>(value, enumeration) m. m(value \<mapsto> enumeration)) (enumerate n xs) d j =
     (if n \<le> j \<and> j < n + length xs then Some (xs ! (j - n)) else d j)"
proof (induction xs arbitrary: n d)
  case Nil
  then show ?case by auto
next
  case (Cons x xs)
  have "fold (\<lambda>(value, enumeration) m. m(value \<mapsto> enumeration)) (enumerate n (x # xs)) d j =
     fold (\<lambda>(value, enumeration) m. m(value \<mapsto> enumeration)) (enumerate (Suc n) xs)
       (d(n \<mapsto> x)) j"
    by (simp del: fun_upd_apply)
  also have "\<dots> =
     (if Suc n \<le> j \<and> j < Suc n + length xs then Some (xs ! (j - Suc n)) else (d(n \<mapsto> x)) j)"
    by (rule Cons.IH)
  also have "\<dots> =
     (if n \<le> j \<and> j < n + length (x # xs) then Some ((x # xs) ! (j - n)) else d j)"
    by (auto simp: nth_Cons' Suc_diff_le)
  finally show ?case .
qed

lemma fill_char_to_int_nth:
  "distinct u \<Longrightarrow> i < length u \<Longrightarrow> fill_char_to_int u d (u ! i) = Some i"
  using fold_char_to_int_nth [of u i 0 d] by (simp add: fill_char_to_int_def)

lemma fill_char_to_int_notin:
  "c \<notin> set u \<Longrightarrow> fill_char_to_int u d c = d c"
  by (simp add: fill_char_to_int_def fold_char_to_int_notin)

lemma fill_char_to_int_in:
  assumes "distinct u" and "c \<in> set u"
  shows "\<exists>i<length u. u ! i = c \<and> fill_char_to_int u d c = Some i"
proof -
  from assms(2) obtain i where "i < length u" and "u ! i = c"
    by (auto simp: in_set_conv_nth)
  with fill_char_to_int_nth [OF assms(1), of i d] show ?thesis by auto
qed

lemma fill_int_to_char_eq:
  "fill_int_to_char u d j = (if j < length u then Some (u ! j) else d j)"
  by (simp add: fill_int_to_char_def fold_int_to_char)

subsection \<open>The two loops of import_data and the unknown data source\<close>

lemma scan_lengths_texts:
  "\<exists>m'. scan_lengths (map Text texts) m = Inr m' \<and> m \<le> m' \<and>
     (\<forall>text\<in>set texts. length text \<le> m') \<and> (m' = m \<or> m' \<in> length ` set texts)"
proof (induction texts arbitrary: m)
  case Nil
  then show ?case by simp
next
  case (Cons raw texts)
  from Cons.IH [of "if length raw > m then length raw else m"]
  show ?case by (auto split: if_splits)
qed

lemma wrap_records_texts:
  "wrap_records (map Text texts) = Some (map wrap_record texts)"
  by (induction texts) simp_all

lemma unknown_source_exits:
  "data_source \<noteq> lit ''trump'' \<Longrightarrow> data_source \<noteq> lit ''alice'' \<Longrightarrow>
   import_data fs data_source s =
     ([Log ERROR (Plain (lit ''Unknown data source.''))], Inl (SystemExit 1))"
  by (simp add: import_data_def select_source_def)

subsection \<open>Index sequences\<close>

lemma input_sequence_total:
  "\<forall>c\<in>set r. \<exists>j. c2i c = Some j \<Longrightarrow>
   \<exists>js. input_sequence c2i r = Inr js \<and> length js = length r \<and>
     (\<forall>i<length r. c2i (r ! i) = Some (js ! i))"
proof (induction r)
  case Nil
  then show ?case by simp
next
  case (Cons c r)
  from Cons.prems obtain j where j: "c2i c = Some j" by auto
  from Cons.prems Cons.IH obtain js where
    js: "input_sequence c2i r = Inr js" "length js = length r"
        "\<forall>i<length r. c2i (r ! i) = Some (js ! i)"
    by auto
  have "\<forall>i<length (c # r). c2i ((c # r) ! i) = Some ((j # js) ! i)"
    using j js(3) by (auto simp: nth_Cons')
  with j js(1,2) show ?case by simp
qed

lemma input_sequence_append:
  "input_sequence c2i xs = Inr a \<Longrightarrow> input_sequence c2i ys = Inr b \<Longrightarrow>
   input_sequence c2i (xs @ ys) = Inr (a @ b)"
  by (induction xs arbitrary: a) (auto simp: bind_err_def split: option.splits sum.splits)

lemma input_sequence_vocabulary:
  assumes "distinct u" and "set r \<subseteq> set u"
  shows "\<exists>js. input_sequence (fill_char_to_int u Map.empty) r = Inr js \<and>
     length js = length r \<and> (\<forall>i<length r. js ! i < length u \<and> u ! (js ! i) = r ! i)"
proof -
  let ?c2i = "fill_char_to_int u Map.empty"
  have "\<forall>c\<in>set r. \<exists>j. ?c2i c = Some j"
    using assms fill_char_to_int_in [of u _ Map.empty] by fastforce
  from input_sequence_total [OF this] obtain js where
    js: "input_sequence ?c2i r = Inr js" "length js = length r"
        "\<forall>i<length r. ?c2i (r ! i) = Some (js ! i)"
    by blast
  have "\<forall>i<length r. js ! i < length u \<and> u ! (js ! i) = r ! i"
  proof (intro allI impI)
    fix i assume i: "i < length r"
    with assms(2) have "r ! i \<in> set u" by auto
    from fill_char_to_int_in [OF assms(1) this, of Map.empty] js(3) i
    show "js ! i < length u \<and> u ! (js ! i) = r ! i" by auto
  qed
  with js(1,2) show ?thesis by blast
qed

subsection \<open>Writing the entries of a one-hot tensor\<close>

lemma set_entries_result:
  "\<forall>v\<in>set vs. v < n \<Longrightarrow> i + length vs \<le> length t \<Longrightarrow> \<forall>k<length t. length (t ! k) = n \<Longrightarrow>
   \<exists>t'. set_entries vs i t = Inr t' \<and> length t' = length t \<and>
     (\<forall>k<length t. t' ! k =
        (if i \<le> k \<and> k < i + length vs then (t ! k)[vs ! (k - i) := 1] else t ! k))"
proof (induction vs arbitrary: i t)
  case Nil
  then show ?case by auto
next
  case (Cons v vs)
  let ?t1 = "t[i := (t ! i)[v := 1]]"
  from Cons.prems have i: "i < length t" and v: "v < length (t ! i)" by auto
  have "\<forall>k<length ?t1. length (?t1 ! k) = n"
    using Cons.prems(3) i by (auto simp: nth_list_update)
  with Cons.IH [of "Suc i" ?t1] Cons.prems obtain t' where
    t': "set_entries vs (Suc i) ?t1 = Inr t'" "length t' = length t"
        "\<forall>k<length t. t' ! k =
           (if Suc i \<le> k \<and> k < Suc i + length vs then (?t1 ! k)[vs ! (k - Suc i) := 1] else ?t1 ! k)"
    by auto
  have "\<forall>k<length t. t' ! k =
        (if i \<le> k \<and> k < i + length (v # vs) then (t ! k)[(v # vs) ! (k - i) := 1] else t ! k)"
  proof (intro allI impI)
    fix k assume k: "k < length t"
    show "t' ! k =
        (if i \<le> k \<and> k < i + length (v # vs) then (t ! k)[(v # vs) ! (k - i) := 1] else t ! k)"
    proof (cases "k = i")
      case True
      with t'(3) i show ?thesis by simp
    next
      case False
      with t'(3) k show ?thesis by (auto simp: nth_Cons' Suc_diff_le)
    qed
  qed
  with t'(1,2) i v show ?case by simp
qed

lemma convert_to_onehot_rows:
  assumes "unique_char_set s = Some u"
    and "\<forall>v\<in>set js. v < length u"
    and "length js \<le> max_string_length s"
  shows "\<exists>t. convert_to_onehot s js = Inr t \<and> length t = max_string_length s \<and>
     (\<forall>k<max_string_length s. t ! k =
        (if k < length js then (replicate (length u) 0)[js ! k := 1] else replicate (length u) 0))"
proof -
  let ?z = "zeros (max_string_length s) (length u)"
  have len: "length ?z = max_string_length s"
    and rows: "\<forall>k<length ?z. ?z ! k = replicate (length u) 0"
    by (simp_all add: zeros_def)
  from rows have "\<forall>k<length ?z. length (?z ! k) = length u" by simp
  from set_entries_result [OF assms(2) _ this, of 0] assms(3) len obtain t where
    t: "set_entries js 0 ?z = Inr t" "length t = length ?z"
       "\<forall>k<length ?z. t ! k =
          (if 0 \<le> k \<and> k < 0 + length js then (?z ! k)[js ! (k - 0) := 1] else ?z ! k)"
    by auto
  from t(3) rows len have "\<forall>k<max_string_length s. t ! k =
        (if k < length js then (replicate (length u) 0)[js ! k := 1] else replicate (length u) 0)"
    by simp
  with t(1,2) len assms(1) show ?thesis by (simp add: convert_to_onehot_def)
qed

subsection \<open>Finding the 1 of a row\<close>

lemma conversion_index_from_none:
  "\<forall>x\<in>set xs. x \<noteq> 1 \<Longrightarrow> conversion_index_from xs n = None"
  by (induction xs arbitrary: n) auto

lemma conversion_index_from_first:
  "j < length xs \<Longrightarrow> xs ! j = 1 \<Longrightarrow> \<forall>k<j. xs ! k \<noteq> 1 \<Longrightarrow>
   conversion_index_from xs n = Some (n + j)"
proof (induction xs arbitrary: n j)
  case Nil
  then show ?case by simp
next
  case (Cons x xs)
  show ?case
  proof (cases j)
    case 0
    with Cons.prems show ?thesis by simp
  next
    case (Suc j')
    from Cons.prems Suc have "x \<noteq> 1" by auto
    moreover from Cons.prems Suc have "\<forall>k<j'. xs ! k \<noteq> 1" by auto
    ultimately show ?thesis
      using Cons.IH [of j' "Suc n"] Cons.prems Suc by simp
  qed
qed

lemma conversion_index_zero_row [simp]:
  "conversion_index (replicate n 0) = None"
  by (simp add: conversion_index_def conversion_index_from_none)

lemma conversion_index_onehot_row [simp]:
  "j < n \<Longrightarrow> conversion_index ((replicate n 0)[j := 1]) = Some j"
  using conversion_index_from_first [of j "(replicate n 0)[j := 1]" 0]
  by (simp add: conversion_index_def)

subsection \<open>The arg-max\<close>

text \<open>
  The loop of \<open>argmax_from\<close> keeps the first greatest entry of what it has seen: \<open>pre\<close>
  is the part of the row already seen and \<open>best\<close> the position of its first greatest
  entry.
\<close>

lemma argmax_from_first_max:
  assumes "length pre = i" and "best < i" and "pre ! best = best_value"
    and "\<forall>a<i. pre ! a \<le> best_value" and "\<forall>a<best. pre ! a < best_value"
  shows "argmax_from xs i best best_value < i + length xs \<and>
    (\<forall>a<i + length xs. (pre @ xs) ! a \<le> (pre @ xs) ! argmax_from xs i best best_value) \<and>
    (\<forall>a<argmax_from xs i best best_value.
        (pre @ xs) ! a < (pre @ xs) ! argmax_from xs i best best_value)"
  using assms
proof (induction xs arbitrary: pre i best best_value)
  case Nil
  then show ?case by simp
next
  case (Cons x xs)
  show ?case
  proof (cases "best_value < x")
    case True
    have "argmax_from xs (Suc i) i x < Suc i + length xs \<and>
      (\<forall>a<Suc i + length xs.
          ((pre @ [x]) @ xs) ! a \<le> ((pre @ [x]) @ xs) ! argmax_from xs (Suc i) i x) \<and>
      (\<forall>a<argmax_from xs (Suc i) i x.
          ((pre @ [x]) @ xs) ! a < ((pre @ [x]) @ xs) ! argmax_from xs (Suc i) i x)"
    proof (rule Cons.IH)
      show "length (pre @ [x]) = Suc i" using Cons.prems(1) by simp
      show "i < Suc i" by simp
      show "(pre @ [x]) ! i = x" using Cons.prems(1) by (simp add: nth_append)
      show "\<forall>a<Suc i. (pre @ [x]) ! a \<le> x"
        using Cons.prems(1,4) True by (auto simp: nth_append less_Suc_eq)
      show "\<forall>a<i. (pre @ [x]) ! a < x"
        using Cons.prems(1,4) True by (auto simp: nth_append)
    qed
    with True show ?thesis by simp
  next
    case False
    have "argmax_from xs (Suc i) best best_value < Suc i + length xs \<and>
      (\<forall>a<Suc i + length xs.
          ((pre @ [x]) @ xs) ! a \<le> ((pre @ [x]) @ xs) ! argmax_from xs (Suc i) best best_value) \<and>
      (\<forall>a<argmax_from xs (Suc i) best best_value.
          ((pre @ [x]) @ xs) ! a < ((pre @ [x]) @ xs) ! argmax_from xs (Suc i) best best_value)"
    proof (rule Cons.IH)
      show "length (pre @ [x]) = Suc i" using Cons.prems(1) by simp
      show "best < Suc i" using Cons.prems(2) by simp
      show "(pre @ [x]) ! best = best_value"
        using Cons.prems(1,2,3) by (simp add: nth_append)
      show "\<forall>a<Suc i. (pre @ [x]) ! a \<le> best_value"
        using Cons.prems(1,4) False by (auto simp: nth_append less_Suc_eq)
      show "\<forall>a<best. (pre @ [x]) ! a < best_value"
        using Cons.prems(1,2,5) by (auto simp: nth_append)
    qed
    with False show ?thesis by simp
  qed
qed

lemma argmax_first_max:
  assumes "row \<noteq> []"
  shows "\<exists>j<length row. argmax row = Inr j \<and>
    (\<forall>a<length row. row ! a \<le> row ! j) \<and> (\<forall>a<j. row ! a < row ! j)"
proof -
  from assms obtain x xs where row: "row = x # xs" by (cases row) auto
  from argmax_from_first_max [of "[x]" 1 0 x xs]
  have "argmax_from xs 1 0 x < 1 + length xs \<and>
    (\<forall>a<1 + length xs. ([x] @ xs) ! a \<le> ([x] @ xs) ! argmax_from xs 1 0 x) \<and>
    (\<forall>a<argmax_from xs 1 0 x. ([x] @ xs) ! a < ([x] @ xs) ! argmax_from xs 1 0 x)"
    by simp
  with row show ?thesis by (simp add: argmax_def)
qed

text \<open>The first greatest entry of a row is at one position only.\<close>

lemma first_max_unique:
  fixes row :: "real list"
  assumes "j < n" and "\<forall>a<n. row ! a \<le> row ! j" and "\<forall>a<j. row ! a < row ! j"
    and "j' < n" and "\<forall>a<n. row ! a \<le> row ! j'" and "\<forall>a<j'. row ! a < row ! j'"
  shows "j' = j"
proof (rule ccontr)
  assume "j' \<noteq> j"
  then consider "j < j'" | "j' < j" by linarith
  then show False
  proof cases
    case 1
    with assms(6) have "row ! j < row ! j'" by simp
    moreover from assms(2,4) have "row ! j' \<le> row ! j" by simp
    ultimately show False by simp
  next
    case 2
    with assms(3) have "row ! j' < row ! j" by simp
    moreover from assms(5,1) have "row ! j \<le> row ! j'" by simp
    ultimately show False by simp
  qed
qed

subsection \<open>One step of the sampler\<close>

lemma append_onehot_cases:
  assumes "unique_char_set s = Some u"
    and "append_onehot s t row_index c = Inr t'"
    and "\<forall>row\<in>set t. length row = length u"
  shows "\<exists>j<length u. char_to_int_dict s c = Some j \<and>
     t' = (if row_index < length t then t[row_index := (replicate (length u) 0)[j := 1]] else t)"
proof (cases "row_index < length t")
  case True
  with assms(3) have "length (t ! row_index) = length u" by simp
  with assms(1,2) True show ?thesis
    by (auto simp: append_onehot_def Let_def split: option.splits if_splits)
next
  case False
  with assms(1,2) show ?thesis
    by (auto simp: append_onehot_def Let_def split: option.splits if_splits)
qed

lemma append_onehot_vocabulary:
  assumes "unique_char_set s = Some u"
    and "char_to_int_dict s c = Some j" and "j < length u"
    and "row_index < length t \<longrightarrow> length (t ! row_index) = length u"
  shows "append_onehot s t row_index c =
     Inr (if row_index < length t then t[row_index := (replicate (length u) 0)[j := 1]] else t)"
  using assms by (simp add: append_onehot_def Let_def)

text \<open>A row of another width makes the assignment raise.\<close>

lemma append_onehot_width:
  assumes "unique_char_set s = Some u"
    and "char_to_int_dict s c = Some j" and "j < length u"
    and "row_index < length t" and "length (t ! row_index) \<noteq> length u" and "length u \<noteq> 1"
  shows "append_onehot s t row_index c = Inl ValueError"
  using assms by (simp add: append_onehot_def Let_def)

lemma generation_step_cases:
  assumes "unique_char_set s = Some u"
    and "generation_step k s index t = Inr t'"
    and "\<forall>row\<in>set t. length row = length u"
  shows "t' = t \<or> (\<exists>j<length u. Suc index < length t \<and>
     t' = t[Suc index := (replicate (length u) 0)[j := 1]])"
proof (cases "predict_and_append k s index t")
  case (Inl e)
  with assms(2) show ?thesis
    by (cases e) (simp_all add: generation_step_def)
next
  case (Inr t'')
  with assms(2) have eq: "t'' = t'" by (simp add: generation_step_def)
  from Inr obtain c where "append_onehot s t (index + 1) c = Inr t''"
    by (auto simp: predict_and_append_def Let_def bind_err_def
        split: option.splits if_splits sum.splits)
  from append_onehot_cases [OF assms(1) this assms(3)] eq show ?thesis by auto
qed

text \<open>
  What a step writes: the one-hot row of the first greatest entry of the row that the
  model predicts for the position, into the next row of the tensor when there is one.
\<close>

lemma generation_step_argmax:
  assumes "unique_char_set s = Some u"
    and "distinct u"
    and "char_to_int_dict s = fill_char_to_int u Map.empty"
    and "int_to_char_dict s = fill_int_to_char u Map.empty"
    and "u \<noteq> []"
    and "model s = Some m"
    and "index < length (predict k m t)"
    and "length (predict k m t ! index) = length u"
    and "Suc index < length t \<longrightarrow> length (t ! Suc index) = length u"
  shows "\<exists>j<length u.
    (\<forall>a<length u. predict k m t ! index ! a \<le> predict k m t ! index ! j) \<and>
    (\<forall>a<j. predict k m t ! index ! a < predict k m t ! index ! j) \<and>
    generation_step k s index t =
      Inr (if Suc index < length t then t[Suc index := (replicate (length u) 0)[j := 1]] else t)"
proof -
  let ?row = "predict k m t ! index"
  from assms(5,8) have "?row \<noteq> []" by auto
  from argmax_first_max [OF this] assms(8) obtain j where
    j: "j < length u" "argmax ?row = Inr j"
    and greatest: "\<forall>a<length u. ?row ! a \<le> ?row ! j"
    and first: "\<forall>a<j. ?row ! a < ?row ! j"
    by auto
  from j(1) assms(4) have i2c: "int_to_char_dict s j = Some (u ! j)"
    by (simp add: fill_int_to_char_eq)
  from fill_char_to_int_nth [OF assms(2) j(1), of Map.empty] assms(3)
  have c2i: "char_to_int_dict s (u ! j) = Some j" by simp
  from append_onehot_vocabulary [OF assms(1) c2i j(1), of "Suc index" t] assms(9)
  have "append_onehot s t (Suc index) (u ! j) =
      Inr (if Suc index < length t then t[Suc index := (replicate (length u) 0)[j := 1]] else t)"
    by simp
  with assms(6,7) j(2) i2c
  have "generation_step k s index t =
      Inr (if Suc index < length t then t[Suc index := (replicate (length u) 0)[j := 1]] else t)"
    by (simp add: generation_step_def predict_and_append_def split: if_splits)
  with j(1) greatest first show ?thesis by blast
qed

lemma generation_step_total:
  assumes "unique_char_set s = Some u"
    and "distinct u"
    and "char_to_int_dict s = fill_char_to_int u Map.empty"
    and "int_to_char_dict s = fill_int_to_char u Map.empty"
    and "u \<noteq> []"
    and "model s = Some m"
    and "\<forall>t. \<forall>row\<in>set (predict k m t). length row = length u"
    and "\<forall>row\<in>set t. length row = length u"
  shows "\<exists>t'. generation_step k s index t = Inr t' \<and> length t' = length t \<and>
    (\<forall>row\<in>set t'. length row = length u)"
proof (cases "index < length (predict k m t)")
  case False
  with assms(6,8) show ?thesis
    by (simp add: generation_step_def predict_and_append_def)
next
  case True
  from nth_mem [OF True] assms(7) have len: "length (predict k m t ! index) = length u"
    by blast
  from assms(8) have "Suc index < length t \<longrightarrow> length (t ! Suc index) = length u" by simp
  from generation_step_argmax [OF assms(1-6) True len this] obtain j where
    j: "j < length u"
    and step: "generation_step k s index t =
      Inr (if Suc index < length t then t[Suc index := (replicate (length u) 0)[j := 1]] else t)"
    by blast
  have "set (t[Suc index := (replicate (length u) 0)[j := 1]])
      \<subseteq> insert ((replicate (length u) 0)[j := 1]) (set t)"
    by (rule set_update_subset_insert)
  with assms(8) have "\<forall>row\<in>set (t[Suc index := (replicate (length u) 0)[j := 1]]).
      length row = length u"
    by auto
  with step assms(8) show ?thesis by auto
qed

text \<open>At the last position the step leaves every tensor as it is, whatever its rows.\<close>

lemma generation_step_last:
  assumes "unique_char_set s = Some u"
    and "distinct u"
    and "char_to_int_dict s = fill_char_to_int u Map.empty"
    and "int_to_char_dict s = fill_int_to_char u Map.empty"
    and "u \<noteq> []"
    and "model s = Some m"
    and "\<forall>t. \<forall>row\<in>set (predict k m t). length row = length u"
    and "length t \<le> Suc index"
  shows "generation_step k s index t = Inr t"
proof (cases "index < length (predict k m t)")
  case False
  with assms(6) show ?thesis
    by (simp add: generation_step_def predict_and_append_def)
next
  case True
  from nth_mem [OF True] assms(7) have len: "length (predict k m t ! index) = length u"
    by blast
  from assms(8) have "Suc index < length t \<longrightarrow> length (t ! Suc index) = length u" by simp
  from generation_step_argmax [OF assms(1-6) True len this] assms(8) show ?thesis by auto
qed

lemma generate_loop_total:
  assumes "\<And>index t. \<forall>row\<in>set t. length row = n \<Longrightarrow>
      \<exists>t'. generation_step k s index t = Inr t' \<and> (\<forall>row\<in>set t'. length row = n)"
    and "\<forall>row\<in>set (fst st). length row = n"
  shows "\<exists>st'. generate_loop k s indices st = Inr st'"
  using assms(2)
proof (induction indices arbitrary: st)
  case Nil
  show ?case by (rule exI [of _ st]) simp
next
  case (Cons index indices)
  obtain t strings where st: "st = (t, strings)" by (cases st) auto
  with Cons.prems have "\<forall>row\<in>set t. length row = n" by simp
  from assms(1) [OF this, of index] obtain t' where
    t': "generation_step k s index t = Inr t'" "\<forall>row\<in>set t'. length row = n" by blast
  from Cons.IH [of "(t', decode_rows (int_to_char_dict s) t' ([], []))"] t'(2)
  obtain st' where
    "generate_loop k s indices (t', decode_rows (int_to_char_dict s) t' ([], [])) = Inr st'"
    by auto
  with t'(1) st show ?case by (intro exI [of _ st']) simp
qed

subsection \<open>Rows of the sampling tensor\<close>

lemma count_list_zero_row [simp]:
  "count_list (replicate n (0::real)) 1 = 0"
  by (induction n) simp_all

lemma count_list_onehot_row:
  "count_list ((replicate n (0::real))[j := 1]) 1 \<le> 1"
proof (induction n arbitrary: j)
  case 0
  then show ?case by simp
next
  case (Suc n)
  then show ?case by (cases j) simp_all
qed

lemma decode_rows_extends:
  "\<exists>is' cs'. decode_rows i2c rows (is, cs) = (is @ is', cs @ cs')"
proof (induction rows arbitrary: "is" cs)
  case Nil
  then show ?case by simp
next
  case (Cons row rows)
  show ?case
  proof (cases "conversion_index row")
    case None
    then show ?thesis by simp
  next
    case (Some j)
    show ?thesis
    proof (cases "i2c j")
      case None
      with Some show ?thesis by simp
    next
      case (Some c)
      from Cons.IH [of "is @ str_nat j @ lit '' ''" "cs @ [c]"] \<open>conversion_index row = Some j\<close> Some
      show ?thesis by auto
    qed
  qed
qed

lemma decode_rows_first:
  assumes "0 < length t" and "conversion_index (t ! 0) = Some j" and "i2c j = Some c"
  shows "\<exists>is' cs'. decode_rows i2c t ([], []) = (is', c # cs')"
proof -
  from assms(1) obtain row rows where t: "t = row # rows" by (cases t) auto
  from decode_rows_extends [of i2c rows "str_nat j @ lit '' ''" "[c]"] assms(2,3) t
  show ?thesis by auto
qed

lemma generate_loop_invariant:
  assumes "unique_char_set s = Some u"
    and "generate_loop k s indices (t, strings) = Inr (t', strings')"
    and "\<forall>row\<in>set t. row = replicate (length u) 0 \<or> (\<exists>j<length u. row = (replicate (length u) 0)[j := 1])"
  shows "length t' = length t \<and> (0 < length t \<longrightarrow> t' ! 0 = t ! 0) \<and>
    (\<forall>row\<in>set t'. row = replicate (length u) 0 \<or> (\<exists>j<length u. row = (replicate (length u) 0)[j := 1])) \<and>
    (if indices = [] then t' = t \<and> strings' = strings
     else strings' = decode_rows (int_to_char_dict s) t' ([], []))"
  using assms(2,3)
proof (induction indices arbitrary: t strings)
  case Nil
  then show ?case by simp
next
  case (Cons index indices)
  from Cons.prems(1) obtain t1 where
    step: "generation_step k s index t = Inr t1"
    and rest: "generate_loop k s indices (t1, decode_rows (int_to_char_dict s) t1 ([], []))
       = Inr (t', strings')"
    by (auto simp: bind_err_def split: sum.splits)
  from Cons.prems(2) have width: "\<forall>row\<in>set t. length row = length u" by auto
  from generation_step_cases [OF assms(1) step width]
  have shape: "length t1 = length t \<and> (0 < length t \<longrightarrow> t1 ! 0 = t ! 0) \<and>
    (\<forall>row\<in>set t1. row = replicate (length u) 0 \<or> (\<exists>j<length u. row = (replicate (length u) 0)[j := 1]))"
  proof
    assume "t1 = t"
    with Cons.prems(2) show ?thesis by simp
  next
    assume "\<exists>j<length u. Suc index < length t \<and> t1 = t[Suc index := (replicate (length u) 0)[j := 1]]"
    then obtain j where j: "j < length u" "t1 = t[Suc index := (replicate (length u) 0)[j := 1]]"
      by blast
    have "set t1 \<subseteq> insert ((replicate (length u) 0)[j := 1]) (set t)"
      unfolding j(2) by (rule set_update_subset_insert)
    with Cons.prems(2) j(1)
    have "\<forall>row\<in>set t1. row = replicate (length u) 0 \<or> (\<exists>j<length u. row = (replicate (length u) 0)[j := 1])"
      by blast
    with j(2) show ?thesis by simp
  qed
  from Cons.IH [OF rest] shape
  show ?case by (auto split: if_splits)
qed

subsection \<open>What the sampler reads\<close>

lemma append_onehot_reads:
  assumes "unique_char_set s1 = unique_char_set s2"
    and "char_to_int_dict s1 = char_to_int_dict s2"
  shows "append_onehot s1 = append_onehot s2"
  unfolding append_onehot_def assms by (rule refl)

text \<open>
  Of the model's prediction, a step reads the number of rows and the arg-max of the row
  at its position, and nothing else.
\<close>

lemma generation_step_reads:
  assumes "unique_char_set s1 = unique_char_set s2"
    and "char_to_int_dict s1 = char_to_int_dict s2"
    and "int_to_char_dict s1 = int_to_char_dict s2"
    and "map_option (\<lambda>m t. map argmax (predict k1 m t)) (model s1) =
         map_option (\<lambda>m t. map argmax (predict k2 m t)) (model s2)"
  shows "generation_step k1 s1 index t = generation_step k2 s2 index t"
proof -
  have "predict_and_append k1 s1 index t = predict_and_append k2 s2 index t"
  proof (cases "model s1")
    case None
    with assms(4) have "model s2 = None" by simp
    with None show ?thesis by (simp add: predict_and_append_def)
  next
    case (Some m1)
    with assms(4) obtain m2 where m2: "model s2 = Some m2"
      and fn: "(\<lambda>t. map argmax (predict k1 m1 t)) = (\<lambda>t. map argmax (predict k2 m2 t))"
      by (cases "model s2") auto
    from fn have same: "map argmax (predict k1 m1 t) = map argmax (predict k2 m2 t)"
      by (auto dest: fun_cong)
    then have "length (map argmax (predict k1 m1 t)) = length (map argmax (predict k2 m2 t))"
      by simp
    then have len: "length (predict k1 m1 t) = length (predict k2 m2 t)" by simp
    have row: "argmax (predict k1 m1 t ! index) = argmax (predict k2 m2 t ! index)"
      if "index < length (predict k2 m2 t)"
    proof -
      from that len have "map argmax (predict k1 m1 t) ! index = argmax (predict k1 m1 t ! index)"
        and "map argmax (predict k2 m2 t) ! index = argmax (predict k2 m2 t ! index)"
        by simp_all
      with same show ?thesis by simp
    qed
    show ?thesis
    proof (cases "index < length (predict k2 m2 t)")
      case True
      show ?thesis
        unfolding predict_and_append_def Some m2 assms(3) append_onehot_reads [OF assms(1,2)]
        using True len row [OF True] by simp
    next
      case False
      with len Some m2 show ?thesis by (simp add: predict_and_append_def)
    qed
  qed
  then show ?thesis by (simp add: generation_step_def)
qed

lemma generate_loop_reads:
  assumes "unique_char_set s1 = unique_char_set s2"
    and "char_to_int_dict s1 = char_to_int_dict s2"
    and "int_to_char_dict s1 = int_to_char_dict s2"
    and "map_option (\<lambda>m t. map argmax (predict k1 m t)) (model s1) =
         map_option (\<lambda>m t. map argmax (predict k2 m t)) (model s2)"
  shows "generate_loop k1 s1 indices st = generate_loop k2 s2 indices st"
proof (induction indices arbitrary: st)
  case Nil
  then show ?case by simp
next
  case (Cons index indices)
  obtain t strings where st: "st = (t, strings)" by (cases st) auto
  show ?case
    unfolding st generate_loop.simps generation_step_reads [OF assms, of index t] assms(3)
    by (cases "generation_step k2 s2 index t") (simp_all add: Cons.IH)
qed

subsection \<open>Removing from the list that is iterated\<close>

lemma remove1_nth_distinct:
  "distinct xs \<Longrightarrow> i < length xs \<Longrightarrow> remove1 (xs ! i) xs = take i xs @ drop (Suc i) xs"
proof (induction xs arbitrary: i)
  case Nil
  then show ?case by simp
next
  case (Cons x xs)
  show ?case
  proof (cases i)
    case 0
    then show ?thesis by simp
  next
    case (Suc j)
    with Cons.prems have "xs ! j \<in> set xs" and "x \<notin> set xs" by auto
    then have "x \<noteq> xs ! j" by auto
    with Cons.IH [of j] Cons.prems Suc show ?thesis by simp
  qed
qed

subsection \<open>The effects of an epoch\<close>

lemma sample_and_log_events:
  assumes "sample_and_log k index s = (evs, Inr ())"
  shows "if index mod 10 = 0
     then \<exists>ints chars. snd (generate_text k s) = Inr (ints, chars) \<and>
       evs = [Log INFO (Plain (lit ''Attempting to generate text.'')),
              Log TESTRESULT (Formatted (lit ''Epoch: {0}   Full Generated Int String: {1}'')
                [PyInt index, PyStr ints]),
              Log TESTRESULT (Formatted (lit ''Epoch: {0}   Full Generated Char String: {1}'')
                [PyInt index, PyStr chars])]
     else evs = []"
proof (cases "index mod 10 = 0")
  case False
  with assms show ?thesis by (simp add: sample_and_log_def)
next
  case True
  with assms obtain evs1 strings where
    "generate_text k s = (evs1, Inr strings)"
    "evs = evs1 @
       [Log TESTRESULT (Formatted (lit ''Epoch: {0}   Full Generated Int String: {1}'')
          [PyInt index, PyStr (fst strings)]),
        Log TESTRESULT (Formatted (lit ''Epoch: {0}   Full Generated Char String: {1}'')
          [PyInt index, PyStr (snd strings)])]"
    by (auto simp: sample_and_log_def then_io_Inr)
  moreover from this(1) have "evs1 = [Log INFO (Plain (lit ''Attempting to generate text.''))]"
    by (simp add: generate_text_def)
  ultimately show ?thesis using True by (cases strings) auto
qed

lemma save_checkpoint_events:
  assumes "save_checkpoint k index s = (evs, Inr ())" and "unique_char_set s = Some u"
  shows "evs = (if index mod 50 = 0
     then [SaveWeights (weights_path (length u) index (timestamp k index))] else [])"
  using assms by (auto simp: save_checkpoint_def split: if_splits)

lemma train_epoch_events:
  assumes "train_epoch k features targets index s = (evs, Inr s')"
    and "unique_char_set s = Some u"
  shows "\<exists>m sampled.
     s' = s\<lparr>model := Some m\<rparr> \<and>
     (if index mod 10 = 0
      then \<exists>ints chars. snd (generate_text k s') = Inr (ints, chars) \<and>
        sampled = [Log INFO (Plain (lit ''Attempting to generate text.'')),
              Log TESTRESULT (Formatted (lit ''Epoch: {0}   Full Generated Int String: {1}'')
                [PyInt index, PyStr ints]),
              Log TESTRESULT (Formatted (lit ''Epoch: {0}   Full Generated Char String: {1}'')
                [PyInt index, PyStr chars])]
      else sampled = []) \<and>
     evs = [Log INFO (Plain []), Log INFO (Plain []),
            Log INFO (Formatted (lit ''Epoch {0}'') [PyInt index])] @ sampled @
       (if index mod 50 = 0
        then [SaveWeights (weights_path (length u) index (timestamp k index))] else [])"
proof -
  from assms(1) obtain m sampled saved where
    m: "model s = Some m"
    and s': "s' = s\<lparr>model := Some (fit k m features targets (max_string_length s))\<rparr>"
    and sample: "sample_and_log k index s' = (sampled, Inr ())"
    and save: "save_checkpoint k index s' = (saved, Inr ())"
    and evs: "evs = [Log INFO (Plain []), Log INFO (Plain []),
            Log INFO (Formatted (lit ''Epoch {0}'') [PyInt index])] @ sampled @ saved"
    by (auto simp: train_epoch_def then_io_Inr split: option.splits)
  from s' assms(2) have "unique_char_set s' = Some u" by simp
  from save_checkpoint_events [OF save this] sample_and_log_events [OF sample] s' evs
  show ?thesis by blast
qed

lemma train_loop_epochs:
  assumes "train_loop k features targets indices s = (evs, Inr s')"
  shows "\<exists>epochs. length epochs = length indices \<and> evs = concat epochs \<and>
     (\<forall>n<length indices. \<exists>m s2.
        train_epoch k features targets (indices ! n) (s\<lparr>model := m\<rparr>) = (epochs ! n, Inr s2))"
  using assms
proof (induction indices arbitrary: s evs)
  case Nil
  then show ?case by simp
next
  case (Cons index indices)
  from Cons.prems obtain evs1 s1 evs2 where
    first: "train_epoch k features targets index s = (evs1, Inr s1)"
    and rest: "train_loop k features targets indices s1 = (evs2, Inr s')"
    and evs: "evs = evs1 @ evs2"
    by (auto simp: then_io_Inr)
  from first have s1: "\<exists>m. s1 = s\<lparr>model := m\<rparr>"
    by (auto simp: train_epoch_def then_io_Inr split: option.splits)
  from Cons.IH [OF rest] obtain epochs where
    epochs: "length epochs = length indices" "evs2 = concat epochs"
      "\<forall>n<length indices. \<exists>m s2.
        train_epoch k features targets (indices ! n) (s1\<lparr>model := m\<rparr>) = (epochs ! n, Inr s2)"
    by blast
  have "\<forall>n<length (index # indices). \<exists>m s2.
        train_epoch k features targets ((index # indices) ! n) (s\<lparr>model := m\<rparr>)
          = ((evs1 # epochs) ! n, Inr s2)"
  proof (intro allI impI)
    fix n assume n: "n < length (index # indices)"
    show "\<exists>m s2.
        train_epoch k features targets ((index # indices) ! n) (s\<lparr>model := m\<rparr>)
          = ((evs1 # epochs) ! n, Inr s2)"
    proof (cases n)
      case 0
      have "s\<lparr>model := model s\<rparr> = s" by simp
      with first 0 show ?thesis by (metis nth_Cons_0)
    next
      case (Suc n')
      with n epochs(3) s1 show ?thesis by fastforce
    qed
  qed
  with epochs(1,2) evs show ?case
    by (intro exI [of _ "evs1 # epochs"]) simp
qed

lemma epoch_schedule:
  assumes "train_epoch k features targets index s = (evs, Inr s')"
    and "unique_char_set s = Some u"
  shows "take 3 evs = [Log INFO (Plain []), Log INFO (Plain []),
           Log INFO (Formatted (lit ''Epoch {0}'') [PyInt index])] \<and>
    ((Log INFO (Plain (lit ''Attempting to generate text.'')) \<in> set evs) = (index mod 10 = 0)) \<and>
    (index mod 10 = 0 \<longrightarrow>
       (\<exists>m ints chars. s' = s\<lparr>model := Some m\<rparr> \<and>
          snd (generate_text k s') = Inr (ints, chars) \<and>
          Log TESTRESULT (Formatted (lit ''Epoch: {0}   Full Generated Int String: {1}'')
            [PyInt index, PyStr ints]) \<in> set evs \<and>
          Log TESTRESULT (Formatted (lit ''Epoch: {0}   Full Generated Char String: {1}'')
            [PyInt index, PyStr chars]) \<in> set evs)) \<and>
    (index mod 10 \<noteq> 0 \<longrightarrow> (\<forall>msg. Log TESTRESULT msg \<notin> set evs)) \<and>
    (\<forall>path. (SaveWeights path \<in> set evs) =
       (index mod 50 = 0 \<and>
        path = lit ''Documents/Weights/'' @ lit ''4'' @ lit ''LSTM_Size'' @ str_nat (length u)
          @ lit ''_atEpoch'' @ str_nat index @ lit ''_'' @ timestamp k index))"
proof -
  from train_epoch_events [OF assms] obtain m sampled where
    s': "s' = s\<lparr>model := Some m\<rparr>"
    and sampled: "if index mod 10 = 0
      then \<exists>ints chars. snd (generate_text k s') = Inr (ints, chars) \<and>
        sampled = [Log INFO (Plain (lit ''Attempting to generate text.'')),
              Log TESTRESULT (Formatted (lit ''Epoch: {0}   Full Generated Int String: {1}'')
                [PyInt index, PyStr ints]),
              Log TESTRESULT (Formatted (lit ''Epoch: {0}   Full Generated Char String: {1}'')
                [PyInt index, PyStr chars])]
      else sampled = []"
    and evs: "evs = [Log INFO (Plain []), Log INFO (Plain []),
            Log INFO (Formatted (lit ''Epoch {0}'') [PyInt index])] @ sampled @
       (if index mod 50 = 0
        then [SaveWeights (weights_path (length u) index (timestamp k index))] else [])"
    by blast
  have path: "weights_path (length u) index (timestamp k index) =
      lit ''Documents/Weights/'' @ lit ''4'' @ lit ''LSTM_Size'' @ str_nat (length u)
          @ lit ''_atEpoch'' @ str_nat index @ lit ''_'' @ timestamp k index"
    by (simp add: weights_path_def lit_def)
  have attempt: "lit ''Attempting to generate text.'' \<noteq> []"
    by (simp add: lit_def)
  show ?thesis
  proof (cases "index mod 10 = 0")
    case True
    with sampled obtain ints chars where
      "snd (generate_text k s') = Inr (ints, chars)"
      "sampled = [Log INFO (Plain (lit ''Attempting to generate text.'')),
              Log TESTRESULT (Formatted (lit ''Epoch: {0}   Full Generated Int String: {1}'')
                [PyInt index, PyStr ints]),
              Log TESTRESULT (Formatted (lit ''Epoch: {0}   Full Generated Char String: {1}'')
                [PyInt index, PyStr chars])]"
      by auto
    with True s' evs path show ?thesis by auto
  next
    case False
    with sampled have "sampled = []" by simp
    with False evs path attempt show ?thesis by auto
  qed
qed

section \<open>Every constructed session\<close>

text \<open>
  A session that the constructor returns has a non-empty corpus of wrapped records, none
  longer than \<open>max_string_length\<close>; its vocabulary is the sorted list of the distinct
  symbols of the corpus and holds the three sentinels; its dictionaries are the ones
  built from the vocabulary, starting from empty ones; and it has a model. The theorems
  below take these properties of the session as their hypotheses.
\<close>

lemma wrap_records_Some:
  "wrap_records ls = Some d \<Longrightarrow> \<exists>texts. ls = map Text texts \<and> d = map wrap_record texts"
proof (induction ls arbitrary: d)
  case Nil
  then show ?case by simp
next
  case (Cons l ls)
  show ?case
  proof (cases l)
    case NoText
    with Cons.prems show ?thesis by simp
  next
    case (Sized n)
    with Cons.prems show ?thesis by simp
  next
    case (Text raw)
    with Cons.prems obtain d' where d': "wrap_records ls = Some d'" "d = wrap_record raw # d'"
      by auto
    from Cons.IH [OF d'(1)] obtain texts where "ls = map Text texts" "d' = map wrap_record texts"
      by blast
    with Text d'(2) have "l # ls = map Text (raw # texts) \<and> d = map wrap_record (raw # texts)"
      by simp
    then show ?thesis by (rule exI)
  qed
qed

lemma import_data_loaded:
  assumes "import_data fs data_source init_fields = (evs, Inr s)" and "data s = Some d"
  shows "\<exists>texts. d = map wrap_record texts \<and>
    (\<forall>record\<in>set d. length record \<le> max_string_length s) \<and>
    model s = None \<and> unique_char_set s = None \<and>
    char_to_int_dict s = Map.empty \<and> int_to_char_dict s = Map.empty"
proof -
  from assms(1) obtain file_location evs2 where
    "read_dataset fs file_location (init_fields :: 'a net) = (evs2, Inr s)"
    by (auto simp: import_data_def then_io_Inr)
  with assms(2) obtain ls m where
    ls: "scan_lengths ls 0 = Inr m" "wrap_records ls = Some d"
    and s: "s = init_fields\<lparr>max_string_length := m + 3, data := Some d\<rparr>"
    by (auto simp: read_dataset_def init_fields_def
        split: dataset_file.splits sum.splits option.splits)
  from wrap_records_Some [OF ls(2)] obtain texts where
    texts: "ls = map Text texts" "d = map wrap_record texts" by blast
  from scan_lengths_texts [of texts 0] ls(1) texts(1)
  have "\<forall>raw\<in>set texts. length raw \<le> m" by auto
  with texts(2) s have "\<forall>record\<in>set d. length record \<le> max_string_length s"
    by (auto simp: wrap_record_def)
  with texts(2) s show ?thesis by (auto simp: init_fields_def)
qed

lemma constructed_session:
  assumes "RecurrentNet k fs data_source = (evs, Inr s)"
  shows "\<exists>texts u m.
    texts \<noteq> [] \<and> data s = Some (map wrap_record texts) \<and>
    (\<forall>record\<in>set (map wrap_record texts). length record \<le> max_string_length s) \<and>
    unique_char_set s = Some u \<and> sorted u \<and> distinct u \<and>
    set u = set (concat (map wrap_record texts)) \<and> {0, 1, 2} \<subseteq> set u \<and>
    char_to_int_dict s = fill_char_to_int u Map.empty \<and>
    int_to_char_dict s = fill_int_to_char u Map.empty \<and>
    model s = Some m"
proof -
  from assms obtain evs1 s1 evs2 s2 where
    imp: "import_data fs data_source init_fields = (evs1, Inr s1)"
    and gcs: "get_character_set s1 = (evs2, Inr s2)"
    and build: "build_architecture k s2 = Inr s"
    by (auto simp add: RecurrentNet_def then_io_Inr simp del: then_io_simps)
  from gcs obtain d where d: "data s1 = Some d"
    by (auto simp: get_character_set_def split: option.splits)
  from import_data_loaded [OF imp d] obtain texts where
    texts: "d = map wrap_record texts"
    and len: "\<forall>record\<in>set d. length record \<le> max_string_length s1"
    and fresh: "char_to_int_dict s1 = Map.empty" "int_to_char_dict s1 = Map.empty"
    by blast
  define u where "u = sort (remdups (concat d))"
  from gcs d fresh have s2: "s2 = s1\<lparr>unique_char_set := Some u,
      char_to_int_dict := fill_char_to_int u Map.empty,
      int_to_char_dict := fill_int_to_char u Map.empty\<rparr>"
    by (simp add: get_character_set_def Let_def u_def)
  from build s2 obtain mask_value where
    mask: "fill_char_to_int u Map.empty 0 = Some mask_value"
    and s: "s = s2\<lparr>model := Some (build_model k mask_value (max_string_length s2) (length u))\<rparr>"
    by (auto simp: build_architecture_def split: option.splits)
  from mask fill_char_to_int_notin [of 0 u Map.empty] have "0 \<in> set u"
    by (cases "0 \<in> set u") auto
  then have "0 \<in> set (concat d)" by (simp add: u_def)
  then have "d \<noteq> []" by auto
  with texts have ne: "texts \<noteq> []" by auto
  then obtain raw where "raw \<in> set texts" by (cases texts) auto
  with texts have "{0, 1, 2} \<subseteq> set (concat d)"
    by (auto simp: wrap_record_def)
  then have "{0, 1, 2} \<subseteq> set u" by (simp add: u_def)
  moreover have "sorted u" "distinct u" "set u = set (concat d)" by (simp_all add: u_def)
  ultimately show ?thesis
    using ne texts len d s s2 by (intro exI [of _ texts] exI [of _ u]) auto
qed

section \<open>The small session at work\<close>

text \<open>The small session is the one the constructor builds from its file.\<close>

lemma example_net_constructed:
  "snd (RecurrentNet example_external example_files (lit ''trump'')) = Inr example_net"
  by (simp add: RecurrentNet_def import_data_def select_source_def read_dataset_def
      example_files_def init_fields_def get_character_set_def Let_def wrap_record_def
      build_architecture_def example_net_def example_external_def lit_def
      fill_char_to_int_notin fill_char_to_int_def)

lemma example_dicts:
  "char_to_int_dict example_net 1 = Some 1"
  "int_to_char_dict example_net j = (if j < 5 then Some ([0, 1, 2, 104, 105] ! j) else None)"
  "fill_char_to_int [0, 1, 2, 104, 105] Map.empty 105 = Some 4"
  using fill_char_to_int_nth [of "[0, 1, 2, 104, 105]" 1 Map.empty]
    fill_char_to_int_nth [of "[0, 1, 2, 104, 105]" 4 Map.empty]
  by (simp_all add: example_net_def fill_int_to_char_eq)

lemma five_Suc: "(5::nat) = Suc (Suc (Suc (Suc (Suc 0))))"
  by simp

lemma example_generate_text:
  "generate_text example_external example_net =
     ([Log INFO (Plain (lit ''Attempting to generate text.''))],
      Inr (lit ''1 4 4 4 4 '', [1, 105, 105, 105, 105]))"
  by (simp add: generate_text_def example_net_def example_external_def zeros_def
      append_onehot_def fill_int_to_char_eq example_dicts [unfolded example_net_def, simplified]
      generation_step_def predict_and_append_def argmax_def
      conversion_index_def str_nat.simps lit_def five_Suc upt_rec Let_def)

text \<open>
  A tensor whose rows are not as wide as the vocabulary makes the step raise: the
  \<open>ValueError\<close> of the row assignment is not caught.
\<close>

lemma example_width_mismatch:
  "generation_step example_external example_net 0 (zeros 5 3) = Inl ValueError"
  by (simp add: generation_step_def predict_and_append_def example_external_def argmax_def
      append_onehot_def zeros_def Let_def fill_int_to_char_eq
      example_dicts [unfolded example_net_def, simplified] example_net_def five_Suc)

text \<open>
  A dataset entry whose text is a list of seven items: the first loop counts it, the
  second loop raises on it, and \<open>import_data\<close> returns with the maximal length already
  raised by 3 and without data.
\<close>

lemma example_sized_entry:
  "import_data (\<lambda>path. Records [Text (lit ''hi''), Sized 7]) (lit ''trump'')
     (init_fields :: unit net) =
     ([Log INFO (Plain (lit ''Using Trump Tweet Dataset.'')),
       Log INFO (Formatted (lit ''Max record length: {0}'') [PyInt 10]),
       Log ERROR (Plain (lit ''Error reading file.'')),
       Log ERROR ExceptionClass],
      Inr (init_fields\<lparr>max_string_length := 10\<rparr>))"
  by (simp add: import_data_def select_source_def read_dataset_def error_reading_file_def
      init_fields_def lit_def)

lemma example_prune:
  "prune_loop [1, 104, 105, 2, 0] 250 [0, 1, 2, 104, 105] 0 = [1, 104]"
  by (simp add: prune_loop.simps)

lemma example_encode_records:
  "\<exists>features targets. encode_records example_net [[1, 104, 105, 2, 0]] = Inr (features, targets)"
  by (simp add: example_net_def convert_to_onehot_def output_sequence_def zeros_def
      fill_char_to_int_def five_Suc)

lemma example_train:
  "train example_external 2 example_net =
     ([Log INFO (Plain []), Log INFO (Plain []),
       Log INFO (Formatted (lit ''Epoch {0}'') [PyInt 0]),
       Log INFO (Plain (lit ''Attempting to generate text.'')),
       Log TESTRESULT (Formatted (lit ''Epoch: {0}   Full Generated Int String: {1}'')
         [PyInt 0, PyStr (lit ''1 4 4 4 4 '')]),
       Log TESTRESULT (Formatted (lit ''Epoch: {0}   Full Generated Char String: {1}'')
         [PyInt 0, PyStr [1, 105, 105, 105, 105]]),
       SaveWeights (lit ''Documents/Weights/4LSTM_Size5_atEpoch0_18-04-01_09:30''),
       Log INFO (Plain []), Log INFO (Plain []),
       Log INFO (Formatted (lit ''Epoch {0}'') [PyInt 1])],
      Inr example_net)"
proof -
  from example_encode_records obtain features targets where
    enc: "encode_records example_net [[1, 104, 105, 2, 0]] = Inr (features, targets)" by blast
  have fit: "example_net\<lparr>model := Some ()\<rparr> = example_net"
    by (simp add: example_net_def)
  have two: "[0..<2] = [0, 1]" by (simp add: upt_rec)
  have e0: "train_epoch example_external features targets 0 example_net =
     ([Log INFO (Plain []), Log INFO (Plain []),
       Log INFO (Formatted (lit ''Epoch {0}'') [PyInt 0]),
       Log INFO (Plain (lit ''Attempting to generate text.'')),
       Log TESTRESULT (Formatted (lit ''Epoch: {0}   Full Generated Int String: {1}'')
         [PyInt 0, PyStr (lit ''1 4 4 4 4 '')]),
       Log TESTRESULT (Formatted (lit ''Epoch: {0}   Full Generated Char String: {1}'')
         [PyInt 0, PyStr [1, 105, 105, 105, 105]]),
       SaveWeights (lit ''Documents/Weights/4LSTM_Size5_atEpoch0_18-04-01_09:30'')],
      Inr example_net)"
    unfolding train_epoch_def
    by (simp add: example_net_def [THEN arg_cong [of _ _ model]] fit sample_and_log_def
        example_generate_text save_checkpoint_def
        example_net_def [THEN arg_cong [of _ _ unique_char_set]] weights_path_def
        str_nat.simps lit_def example_external_def [THEN arg_cong [of _ _ timestamp]])
  have e1: "train_epoch example_external features targets 1 example_net =
     ([Log INFO (Plain []), Log INFO (Plain []),
       Log INFO (Formatted (lit ''Epoch {0}'') [PyInt 1])],
      Inr example_net)"
    unfolding train_epoch_def
    by (simp add: example_net_def [THEN arg_cong [of _ _ model]] fit sample_and_log_def
        save_checkpoint_def)
  have d: "data example_net = Some [[1, 104, 105, 2, 0]]"
    and ucs: "unique_char_set example_net = Some [0, 1, 2, 104, 105]"
    by (simp_all add: example_net_def)
  have "train example_external 2 example_net =
      train_loop example_external features targets [0..<2] example_net"
    by (simp only: train_def d ucs option.case enc sum.case prod.case)
  then show ?thesis
    by (simp add: two e0 e1 [unfolded One_nat_def])
qed

section \<open>Encoding a record and decoding it\<close>

text \<open>
  C1. Let the vocabulary of the session be a list of distinct symbols with the two
  dictionaries that \<open>get_character_set\<close> builds from it, and let \<open>r\<close> be a record whose
  symbols are all in the vocabulary and that is not longer than \<open>max_string_length\<close>.
  Then turning \<open>r\<close> into indices and into a one-hot tensor succeeds, the tensor has
  \<open>max_string_length\<close> rows, the search for the 1 in row \<open>i\<close> finds the vocabulary index
  of \<open>r[i]\<close> for every \<open>i < len(r)\<close> (and \<open>int_to_char_dict\<close> maps it back to \<open>r[i]\<close>), and
  the rows from \<open>len(r)\<close> up to \<open>max_string_length\<close> are all zero, so that the search
  finds nothing in them.
\<close>

theorem encode_decode_roundtrip:
  assumes "unique_char_set s = Some u"
    and "distinct u"
    and "char_to_int_dict s = fill_char_to_int u Map.empty"
    and "int_to_char_dict s = fill_int_to_char u Map.empty"
    and "set r \<subseteq> set u"
    and "length r \<le> max_string_length s"
  shows "\<exists>js t.
    input_sequence (char_to_int_dict s) r = Inr js \<and>
    convert_to_onehot s js = Inr t \<and>
    length t = max_string_length s \<and>
    (\<forall>i<length r. \<exists>j<length u.
        char_to_int_dict s (r ! i) = Some j \<and>
        conversion_index (t ! i) = Some j \<and>
        int_to_char_dict s j = Some (r ! i)) \<and>
    (\<forall>i. length r \<le> i \<and> i < max_string_length s \<longrightarrow>
        t ! i = replicate (length u) 0 \<and> conversion_index (t ! i) = None)"
proof -
  have keys: "\<forall>c\<in>set r. \<exists>j. char_to_int_dict s c = Some j"
    using assms(2,3,5) fill_char_to_int_in [of u _ Map.empty] by fastforce
  from input_sequence_total [OF keys] obtain js where
    js: "input_sequence (char_to_int_dict s) r = Inr js" "length js = length r"
        "\<forall>i<length r. char_to_int_dict s (r ! i) = Some (js ! i)"
    by blast
  have idx: "\<forall>i<length r. js ! i < length u \<and> u ! (js ! i) = r ! i"
  proof (intro allI impI)
    fix i assume i: "i < length r"
    with assms(5) have "r ! i \<in> set u" by auto
    from fill_char_to_int_in [OF assms(2) this, of Map.empty] js(3) i assms(3)
    show "js ! i < length u \<and> u ! (js ! i) = r ! i" by auto
  qed
  have bound: "\<forall>v\<in>set js. v < length u"
    using idx js(2) by (auto simp: in_set_conv_nth)
  from convert_to_onehot_rows [OF assms(1) bound] assms(6) js(2) obtain t where
    t: "convert_to_onehot s js = Inr t" "length t = max_string_length s"
       "\<forall>k<max_string_length s. t ! k =
          (if k < length js then (replicate (length u) 0)[js ! k := 1] else replicate (length u) 0)"
    by auto
  have dec: "\<forall>i<length r. \<exists>j<length u.
        char_to_int_dict s (r ! i) = Some j \<and>
        conversion_index (t ! i) = Some j \<and>
        int_to_char_dict s j = Some (r ! i)"
  proof (intro allI impI)
    fix i assume i: "i < length r"
    with assms(6) have "i < max_string_length s" by simp
    with t(3) i js(2) have "t ! i = (replicate (length u) 0)[js ! i := 1]" by simp
    with idx i js(3) assms(4) show "\<exists>j<length u.
        char_to_int_dict s (r ! i) = Some j \<and>
        conversion_index (t ! i) = Some j \<and>
        int_to_char_dict s j = Some (r ! i)"
      by (auto simp: fill_int_to_char_eq)
  qed
  have pad: "\<forall>i. length r \<le> i \<and> i < max_string_length s \<longrightarrow>
        t ! i = replicate (length u) 0 \<and> conversion_index (t ! i) = None"
    using t(3) js(2) by simp
  from js(1) t(1,2) dec pad show ?thesis by blast
qed

theorem encode_decode_roundtrip_witness:
  "\<exists>js t.
    input_sequence (char_to_int_dict (example_net\<lparr>max_string_length := 7\<rparr>)) [1, 104, 105, 2, 0]
      = Inr js \<and>
    convert_to_onehot (example_net\<lparr>max_string_length := 7\<rparr>) js = Inr t \<and>
    length t = max_string_length (example_net\<lparr>max_string_length := 7\<rparr>) \<and>
    (\<forall>i<length [1, 104, 105, 2, 0 :: nat]. \<exists>j<length [0, 1, 2, 104, 105 :: nat].
        char_to_int_dict (example_net\<lparr>max_string_length := 7\<rparr>) ([1, 104, 105, 2, 0] ! i) = Some j \<and>
        conversion_index (t ! i) = Some j \<and>
        int_to_char_dict (example_net\<lparr>max_string_length := 7\<rparr>) j = Some ([1, 104, 105, 2, 0] ! i)) \<and>
    (\<forall>i. length [1, 104, 105, 2, 0 :: nat] \<le> i \<and>
         i < max_string_length (example_net\<lparr>max_string_length := 7\<rparr>)
         \<longrightarrow> t ! i = replicate (length [0, 1, 2, 104, 105 :: nat]) 0 \<and>
           conversion_index (t ! i) = None)"
  by (rule encode_decode_roundtrip [where u = "[0, 1, 2, 104, 105]"])
    (simp_all add: example_net_def)

section \<open>A dataset file that cannot be read\<close>

text \<open>
  C2. When the file of a known data source cannot be opened or parsed, \<open>import_data\<close>
  logs two errors and returns normally, leaving \<open>data\<close> at \<open>None\<close>; it does not leave
  the process as the branch for an unknown data source does. The constructor then goes
  on to \<open>get_character_set\<close>, which raises \<open>TypeError\<close> on the missing data.
\<close>

theorem unreadable_file_is_swallowed:
  "import_data (\<lambda>path. Unreadable) (lit ''trump'') (init_fields :: unit net) =
     ([Log INFO (Plain (lit ''Using Trump Tweet Dataset.'')),
       Log ERROR (Plain (lit ''Error reading file.'')),
       Log ERROR ExceptionClass],
      Inr init_fields) \<and>
   data (init_fields :: unit net) = None \<and>
   get_character_set (init_fields :: unit net) = ([], Inl TypeError) \<and>
   snd (RecurrentNet k (\<lambda>path. Unreadable) (lit ''trump'')) = Inl TypeError"
  by (simp add: import_data_def select_source_def read_dataset_def error_reading_file_def
      get_character_set_def RecurrentNet_def init_fields_def)

section \<open>The target of a record\<close>

text \<open>
  C3. In a session whose vocabulary is a list of distinct symbols with the
  \<open>char_to_int_dict\<close> built from it, let \<open>r\<close> be a non-empty record (every wrapped record
  has at least three symbols) whose symbols are in the vocabulary, as is the pad sentinel
  \<open>'\0'\<close>, and that is not longer than \<open>max_string_length\<close>. Then the target sequence that
  \<open>train\<close> builds from \<open>r\<close> has the length of \<open>r\<close>, it is the index sequence of \<open>r[1:]\<close>
  followed by \<open>'\0'\<close>, both one-hot encodings succeed, and row \<open>i\<close> of the target's
  encoding is row \<open>i + 1\<close> of the encoding of \<open>r\<close> for every \<open>i < len(r) - 1\<close>.
\<close>

theorem shift_invariant:
  assumes "unique_char_set s = Some u"
    and "distinct u"
    and "char_to_int_dict s = fill_char_to_int u Map.empty"
    and "r \<noteq> []"
    and "set r \<subseteq> set u"
    and "0 \<in> set u"
    and "length r \<le> max_string_length s"
  shows "\<exists>js os feature target.
    input_sequence (char_to_int_dict s) r = Inr js \<and>
    output_sequence (char_to_int_dict s) r = Inr os \<and>
    length os = length r \<and>
    input_sequence (char_to_int_dict s) (tl r @ [0]) = Inr os \<and>
    convert_to_onehot s js = Inr feature \<and>
    convert_to_onehot s os = Inr target \<and>
    (\<forall>i. i + 1 < length r \<longrightarrow> target ! i = feature ! (i + 1))"
proof -
  let ?c2i = "fill_char_to_int u Map.empty"
  from assms(4) obtain c r' where r: "r = c # r'" by (cases r) auto
  from assms(5) r have sub: "set r' \<subseteq> set u" and c: "c \<in> set u" by auto
  from input_sequence_vocabulary [OF assms(2) sub] obtain rest where
    rest: "input_sequence ?c2i r' = Inr rest" "length rest = length r'"
          "\<forall>i<length r'. rest ! i < length u \<and> u ! (rest ! i) = r' ! i"
    by blast
  from fill_char_to_int_in [OF assms(2) c, of Map.empty] obtain j where
    j: "j < length u" "?c2i c = Some j" by blast
  from fill_char_to_int_in [OF assms(2,6), of Map.empty] obtain pad where
    pad: "pad < length u" "?c2i 0 = Some pad" by blast
  let ?js = "j # rest" and ?os = "rest @ [pad]"
  have in_seq: "input_sequence ?c2i r = Inr ?js"
    using r j rest(1) by simp
  have out_seq: "output_sequence ?c2i r = Inr ?os"
    using in_seq pad by (simp add: output_sequence_def)
  have "input_sequence ?c2i [0] = Inr [pad]"
    using pad by simp
  from input_sequence_append [OF rest(1) this] r
  have shifted: "input_sequence ?c2i (tl r @ [0]) = Inr ?os" by simp
  have len: "length ?os = length r"
    using r rest(2) by simp
  have bound_rest: "\<forall>v\<in>set rest. v < length u"
    using rest(2,3) by (auto simp: in_set_conv_nth)
  with j pad have bound_js: "\<forall>v\<in>set ?js. v < length u"
    and bound_os: "\<forall>v\<in>set ?os. v < length u" by auto
  from convert_to_onehot_rows [OF assms(1) bound_js] assms(7) r rest(2) obtain feature where
    f: "convert_to_onehot s ?js = Inr feature"
       "\<forall>k<max_string_length s. feature ! k =
          (if k < length ?js then (replicate (length u) 0)[?js ! k := 1]
           else replicate (length u) 0)"
    by auto
  from convert_to_onehot_rows [OF assms(1) bound_os] assms(7) len obtain target where
    t: "convert_to_onehot s ?os = Inr target"
       "\<forall>k<max_string_length s. target ! k =
          (if k < length ?os then (replicate (length u) 0)[?os ! k := 1]
           else replicate (length u) 0)"
    by auto
  have "\<forall>i. i + 1 < length r \<longrightarrow> target ! i = feature ! (i + 1)"
  proof (intro allI impI)
    fix i assume i: "i + 1 < length r"
    with assms(7) have "i < max_string_length s" and "i + 1 < max_string_length s" by auto
    with f(2) t(2) i r rest(2) show "target ! i = feature ! (i + 1)"
      by (simp add: nth_append)
  qed
  with in_seq out_seq shifted len f(1) t(1) assms(3) show ?thesis by auto
qed

theorem shift_invariant_witness:
  "\<exists>js os feature target.
    input_sequence (char_to_int_dict example_net) [1, 104, 105, 2, 0] = Inr js \<and>
    output_sequence (char_to_int_dict example_net) [1, 104, 105, 2, 0] = Inr os \<and>
    length os = length [1, 104, 105, 2, 0 :: nat] \<and>
    input_sequence (char_to_int_dict example_net) (tl [1, 104, 105, 2, 0] @ [0]) = Inr os \<and>
    convert_to_onehot example_net js = Inr feature \<and>
    convert_to_onehot example_net os = Inr target \<and>
    (\<forall>i. i + 1 < length [1, 104, 105, 2, 0 :: nat] \<longrightarrow> target ! i = feature ! (i + 1))"
  by (rule shift_invariant [where u = "[0, 1, 2, 104, 105]"]) (simp_all add: example_net_def)

section \<open>The maximal length and the wrapped records\<close>

text \<open>
  C4. Let the data source be one of the two known ones, let its file hold a non-empty
  list of texts, and let \<open>max_string_length\<close> be 0 as \<open>__init__\<close> leaves it. Then
  \<open>import_data\<close> returns, \<open>max_string_length\<close> is the greatest length of a text plus 3,
  the data are the texts with \<open>'\1'\<close> in front and \<open>'\2'\<close> and \<open>'\0'\<close> behind, and no
  record is longer than \<open>max_string_length\<close>.
\<close>

theorem max_string_length_computation:
  assumes "snd (select_source data_source) = Inr file_location"
    and "fs file_location = Records (map Text texts)"
    and "texts \<noteq> []"
    and "max_string_length s = 0"
  shows "\<exists>evs s'.
    import_data fs data_source s = (evs, Inr s') \<and>
    max_string_length s' = Max (length ` set texts) + 3 \<and>
    data s' = Some (map (\<lambda>text. [1] @ text @ [2, 0]) texts) \<and>
    (\<forall>record\<in>set (the (data s')). length record \<le> max_string_length s')"
proof -
  from scan_lengths_texts [of texts 0] obtain m where
    m: "scan_lengths (map Text texts) 0 = Inr m"
       "\<forall>text\<in>set texts. length text \<le> m" "m = 0 \<or> m \<in> length ` set texts"
    by blast
  have "m \<in> length ` set texts"
  proof (cases "m = 0")
    case True
    from assms(3) obtain raw where raw: "raw \<in> set texts" by (cases texts) auto
    with m(2) True have "length raw = m" by auto
    with raw show ?thesis by auto
  next
    case False
    with m(3) show ?thesis by simp
  qed
  with m(2) have max: "Max (length ` set texts) = m"
    by (intro Max_eqI) auto
  define s' where "s' = s\<lparr>max_string_length := m + 3, data := Some (map wrap_record texts)\<rparr>"
  have "\<exists>evs. read_dataset fs file_location s = (evs, Inr s')"
    using assms(2,4) m(1) by (simp add: read_dataset_def wrap_records_texts s'_def)
  moreover obtain evs0 where "select_source data_source = (evs0, Inr file_location)"
    using assms(1) by (cases "select_source data_source") auto
  ultimately have run: "\<exists>evs. import_data fs data_source s = (evs, Inr s')"
    by (auto simp: import_data_def)
  have d: "data s' = Some (map (\<lambda>text. [1] @ text @ [2, 0]) texts)"
    by (simp add: s'_def wrap_record_def)
  have "\<forall>record\<in>set (the (data s')). length record \<le> max_string_length s'"
    using m(2) by (auto simp: s'_def wrap_record_def)
  with run d max show ?thesis by (auto simp: s'_def)
qed

text \<open>Texts of the lengths 5, 12 and 3 give the maximal length 15.\<close>

theorem max_string_length_computation_witness:
  "\<exists>evs s'.
    import_data (\<lambda>path. Records (map Text [lit ''hello'', lit ''hello world!'', lit ''abc'']))
      (lit ''trump'') (init_fields :: unit net) = (evs, Inr s') \<and>
    max_string_length s' = 15 \<and>
    data s' = Some (map (\<lambda>text. [1] @ text @ [2, 0]) [lit ''hello'', lit ''hello world!'', lit ''abc'']) \<and>
    (\<forall>record\<in>set (the (data s')). length record \<le> max_string_length s')"
  using max_string_length_computation
    [of "lit ''trump''" "lit ''Documents/trump_tweets_2017.json''"
        "\<lambda>path. Records (map Text [lit ''hello'', lit ''hello world!'', lit ''abc''])"
        "[lit ''hello'', lit ''hello world!'', lit ''abc'']" "init_fields :: unit net"]
  by (simp add: select_source_def init_fields_def lit_def)

section \<open>The sampler does not raise\<close>

text \<open>
  C5. Take a session whose vocabulary is a list of distinct symbols with the two
  dictionaries built from it and that contains the start sentinel, and any model whose
  predictions have one column per symbol of the vocabulary in every row (the shape the
  network is built with); which column is greatest is arbitrary, so the model may always
  predict the last symbol. Then \<open>generate_text\<close> returns its pair of strings; its first
  write succeeds, and from the tensor it gives the loop returns after any number of
  steps up to \<open>max_string_length\<close>; a step returns from every tensor whose rows are as
  wide as the vocabulary, as those of the sampler's tensor are, and gives such a tensor
  of the same length again; a write to row \<open>max_string_length\<close> returns the tensor
  unchanged and without an error; and so does the whole step at the last position.
\<close>

theorem sampler_bounds_safety:
  assumes "unique_char_set s = Some u"
    and "distinct u"
    and "char_to_int_dict s = fill_char_to_int u Map.empty"
    and "int_to_char_dict s = fill_int_to_char u Map.empty"
    and "1 \<in> set u"
    and "model s = Some m"
    and "\<forall>t. \<forall>row\<in>set (predict k m t). length row = length u"
  shows "(\<exists>strings. snd (generate_text k s) = Inr strings) \<and>
    (\<exists>t0. append_onehot s (zeros (max_string_length s) (length u)) 0 1 = Inr t0 \<and>
       (\<forall>n\<le>max_string_length s. \<exists>st. generate_loop k s [0..<n] (t0, [], []) = Inr st)) \<and>
    (\<forall>t index. (\<forall>row\<in>set t. length row = length u) \<longrightarrow>
       (\<exists>t'. generation_step k s index t = Inr t' \<and> length t' = length t \<and>
          (\<forall>row\<in>set t'. length row = length u))) \<and>
    (\<forall>t c. length t = max_string_length s \<and> c \<in> set u \<longrightarrow>
       append_onehot s t (max_string_length s) c = Inr t) \<and>
    (\<forall>t. length t = max_string_length s \<and> 0 < max_string_length s \<longrightarrow>
       generation_step k s (max_string_length s - 1) t = Inr t)"
proof -
  let ?M = "max_string_length s" and ?V = "length u"
  from assms(5) have ne: "u \<noteq> []" by auto
  have step: "\<exists>t'. generation_step k s index t = Inr t' \<and> length t' = length t \<and>
      (\<forall>row\<in>set t'. length row = ?V)"
    if "\<forall>row\<in>set t. length row = ?V" for index t
    by (rule generation_step_total [OF assms(1-4) ne assms(6,7) that])
  from fill_char_to_int_in [OF assms(2,5), of Map.empty] assms(3) obtain j where
    j: "j < ?V" "char_to_int_dict s 1 = Some j" by auto
  define t0 where "t0 = (if 0 < length (zeros ?M ?V)
    then (zeros ?M ?V)[0 := (replicate ?V 0)[j := 1]] else zeros ?M ?V)"
  have "0 < length (zeros ?M ?V) \<longrightarrow> length (zeros ?M ?V ! 0) = ?V"
    by (simp add: zeros_def)
  from append_onehot_vocabulary [OF assms(1) j(2,1) this]
  have init: "append_onehot s (zeros ?M ?V) 0 1 = Inr t0"
    by (simp add: t0_def)
  have "set t0 \<subseteq> insert ((replicate ?V 0)[j := 1]) (set (zeros ?M ?V))"
    using set_update_subset_insert [of "zeros ?M ?V" 0 "(replicate ?V 0)[j := 1]"]
    by (auto simp: t0_def)
  then have width0: "\<forall>row\<in>set (fst (t0, [] :: pystr, [] :: pystr)). length row = ?V"
    by (auto simp: zeros_def)
  have loop: "\<exists>st. generate_loop k s indices (t0, [], []) = Inr st" for indices
  proof (rule generate_loop_total [where n = "?V"])
    fix index and t :: onehot
    assume "\<forall>row\<in>set t. length row = ?V"
    from step [OF this, of index]
    show "\<exists>t'. generation_step k s index t = Inr t' \<and> (\<forall>row\<in>set t'. length row = ?V)"
      by blast
  next
    show "\<forall>row\<in>set (fst (t0, [] :: pystr, [] :: pystr)). length row = ?V" by (rule width0)
  qed
  from loop [of "[0..<?M]"] obtain st where
    "generate_loop k s [0..<?M] (t0, [], []) = Inr st" by blast
  with init assms(1) have run: "\<exists>strings. snd (generate_text k s) = Inr strings"
    by (cases st) (simp add: generate_text_def)
  from init loop
  have prefixes: "\<exists>t0. append_onehot s (zeros ?M ?V) 0 1 = Inr t0 \<and>
       (\<forall>n\<le>?M. \<exists>st. generate_loop k s [0..<n] (t0, [], []) = Inr st)"
    by blast
  have steps: "\<forall>t index. (\<forall>row\<in>set t. length row = ?V) \<longrightarrow>
       (\<exists>t'. generation_step k s index t = Inr t' \<and> length t' = length t \<and>
          (\<forall>row\<in>set t'. length row = ?V))"
    using step by blast
  have last_write: "\<forall>t c. length t = ?M \<and> c \<in> set u \<longrightarrow> append_onehot s t ?M c = Inr t"
  proof (intro allI impI)
    fix t :: onehot and c :: symbol
    assume a: "length t = ?M \<and> c \<in> set u"
    with fill_char_to_int_in [OF assms(2), of c Map.empty] assms(3) obtain i where
      i: "i < ?V" "char_to_int_dict s c = Some i" by auto
    from a have "?M < length t \<longrightarrow> length (t ! ?M) = ?V" by simp
    from append_onehot_vocabulary [OF assms(1) i(2,1) this] a
    show "append_onehot s t ?M c = Inr t" by simp
  qed
  have last_step: "\<forall>t. length t = ?M \<and> 0 < ?M \<longrightarrow> generation_step k s (?M - 1) t = Inr t"
  proof (intro allI impI)
    fix t :: onehot
    assume a: "length t = ?M \<and> 0 < ?M"
    then have "length t \<le> Suc (?M - 1)" by simp
    from generation_step_last [OF assms(1-4) ne assms(6,7) this]
    show "generation_step k s (?M - 1) t = Inr t" .
  qed
  from run prefixes steps last_write last_step show ?thesis by blast
qed

text \<open>
  On the small session, whose model always predicts the last symbol: the whole run, a
  step on the empty tensor of 5 rows and 5 columns, the write of \<open>'i'\<close> to row 5 of that
  tensor, and the step at the last position 4.
\<close>

theorem sampler_bounds_safety_witness:
  "(\<exists>strings. snd (generate_text example_external example_net) = Inr strings) \<and>
   (\<exists>t'. generation_step example_external example_net 0 (zeros 5 5) = Inr t' \<and>
      length t' = length (zeros 5 5)) \<and>
   append_onehot example_net (zeros 5 5) 5 105 = Inr (zeros 5 5) \<and>
   generation_step example_external example_net 4 (zeros 5 5) = Inr (zeros 5 5)"
proof -
  let ?u = "[0, 1, 2, 104, 105 :: nat]"
  have ucs: "unique_char_set example_net = Some ?u"
    and c2i: "char_to_int_dict example_net = fill_char_to_int ?u Map.empty"
    and i2c: "int_to_char_dict example_net = fill_int_to_char ?u Map.empty"
    and m: "model example_net = Some ()"
    and len: "max_string_length example_net = 5"
    by (simp_all add: example_net_def)
  have du: "distinct ?u" and start: "1 \<in> set ?u" by simp_all
  have shape: "\<forall>t. \<forall>row\<in>set (predict example_external () t). length row = length ?u"
    by (simp add: example_external_def)
  note safe = sampler_bounds_safety [OF ucs du c2i i2c start m shape]
  have z: "length (zeros 5 5) = max_string_length example_net"
    and w: "\<forall>row\<in>set (zeros 5 5). length row = length ?u"
    by (simp_all add: zeros_def len)
  from safe have "\<exists>strings. snd (generate_text example_external example_net) = Inr strings"
    by blast
  moreover from safe w
  have "\<exists>t'. generation_step example_external example_net 0 (zeros 5 5) = Inr t' \<and>
      length t' = length (zeros 5 5)"
    by blast
  moreover from safe z
  have "append_onehot example_net (zeros 5 5) (max_string_length example_net) 105
      = Inr (zeros 5 5)"
    by simp
  moreover from safe z len
  have "generation_step example_external example_net (max_string_length example_net - 1)
      (zeros 5 5) = Inr (zeros 5 5)"
    by simp
  ultimately show ?thesis by (simp add: len)
qed

section \<open>The sampler reads only the arg-max of the prediction\<close>

text \<open>
  C6. \<open>generate_text\<close> makes no choice of its own. Two calls on sessions with the same
  vocabulary, the same maximal length and the same dictionaries, and with models whose
  predictions have the same arg-max in every row (as two calls on the same weights
  have), give the same result: the same effects and the same pair of the index string
  and the character string. And what a step does is fixed by the row that the model
  predicts for its position: in a session with the built vocabulary and on a tensor with
  rows as wide as the vocabulary, the step at position \<open>index\<close> writes the one-hot row of
  a column \<open>j\<close> into row \<open>index + 1\<close> (when the tensor has that row), where the predicted
  row is greatest at \<open>j\<close> and smaller at every column before \<open>j\<close>; no other column has
  this property; and both sessions take the same step.
\<close>

theorem sampler_determinism:
  assumes "unique_char_set s1 = unique_char_set s2"
    and "max_string_length s1 = max_string_length s2"
    and "char_to_int_dict s1 = char_to_int_dict s2"
    and "int_to_char_dict s1 = int_to_char_dict s2"
    and "map_option (\<lambda>m t. map argmax (predict k1 m t)) (model s1) =
         map_option (\<lambda>m t. map argmax (predict k2 m t)) (model s2)"
  shows "generate_text k1 s1 = generate_text k2 s2 \<and>
    (\<forall>u m index t.
       unique_char_set s1 = Some u \<and> distinct u \<and> u \<noteq> [] \<and>
       char_to_int_dict s1 = fill_char_to_int u Map.empty \<and>
       int_to_char_dict s1 = fill_int_to_char u Map.empty \<and>
       model s1 = Some m \<and>
       index < length (predict k1 m t) \<and> length (predict k1 m t ! index) = length u \<and>
       (\<forall>row\<in>set t. length row = length u) \<longrightarrow>
       (\<exists>j<length u.
          (\<forall>a<length u. predict k1 m t ! index ! a \<le> predict k1 m t ! index ! j) \<and>
          (\<forall>a<j. predict k1 m t ! index ! a < predict k1 m t ! index ! j) \<and>
          (\<forall>j'<length u.
             (\<forall>a<length u. predict k1 m t ! index ! a \<le> predict k1 m t ! index ! j') \<and>
             (\<forall>a<j'. predict k1 m t ! index ! a < predict k1 m t ! index ! j') \<longrightarrow> j' = j) \<and>
          generation_step k1 s1 index t =
            Inr (if Suc index < length t
                 then t[Suc index := (replicate (length u) 0)[j := 1]] else t) \<and>
          generation_step k2 s2 index t = generation_step k1 s1 index t))"
proof (intro conjI allI impI)
  show "generate_text k1 s1 = generate_text k2 s2"
    unfolding generate_text_def assms(1,2) append_onehot_reads [OF assms(1,3)]
      generate_loop_reads [OF assms(1,3,4,5)]
    by (rule refl)
next
  fix u m index and t :: onehot
  assume a: "unique_char_set s1 = Some u \<and> distinct u \<and> u \<noteq> [] \<and>
       char_to_int_dict s1 = fill_char_to_int u Map.empty \<and>
       int_to_char_dict s1 = fill_int_to_char u Map.empty \<and>
       model s1 = Some m \<and>
       index < length (predict k1 m t) \<and> length (predict k1 m t ! index) = length u \<and>
       (\<forall>row\<in>set t. length row = length u)"
  let ?row = "predict k1 m t ! index"
  from a have "Suc index < length t \<longrightarrow> length (t ! Suc index) = length u" by simp
  with a generation_step_argmax [of s1 u m index k1 t] obtain j where
    j: "j < length u"
    and greatest: "\<forall>a<length u. ?row ! a \<le> ?row ! j"
    and first: "\<forall>a<j. ?row ! a < ?row ! j"
    and step: "generation_step k1 s1 index t =
      Inr (if Suc index < length t then t[Suc index := (replicate (length u) 0)[j := 1]] else t)"
    by blast
  have only: "\<forall>j'<length u.
      (\<forall>a<length u. ?row ! a \<le> ?row ! j') \<and> (\<forall>a<j'. ?row ! a < ?row ! j') \<longrightarrow> j' = j"
    using first_max_unique [OF j greatest first] by blast
  have same: "generation_step k2 s2 index t = generation_step k1 s1 index t"
    by (rule generation_step_reads [OF assms(1,3,4,5), symmetric])
  from j greatest first only step same
  show "\<exists>j<length u.
          (\<forall>a<length u. ?row ! a \<le> ?row ! j) \<and>
          (\<forall>a<j. ?row ! a < ?row ! j) \<and>
          (\<forall>j'<length u.
             (\<forall>a<length u. ?row ! a \<le> ?row ! j') \<and> (\<forall>a<j'. ?row ! a < ?row ! j') \<longrightarrow> j' = j) \<and>
          generation_step k1 s1 index t =
            Inr (if Suc index < length t
                 then t[Suc index := (replicate (length u) 0)[j := 1]] else t) \<and>
          generation_step k2 s2 index t = generation_step k1 s1 index t"
    by blast
qed

text \<open>
  The small session, and the same session with another corpus and a model that predicts
  other values with the greatest in the same column; and the first step of both, which
  writes the last symbol into row 1.
\<close>

theorem sampler_determinism_witness:
  "generate_text example_external example_net =
   generate_text (example_external\<lparr>predict := (\<lambda>m t. replicate 5 [1, 2, 0, 0, 7])\<rparr>)
     (example_net\<lparr>data := Some [[1, 104, 105, 2, 0], [1, 104, 2, 0]]\<rparr>) \<and>
   generation_step example_external example_net 0 (zeros 5 5) =
     Inr ((zeros 5 5)[1 := [0, 0, 0, 0, 1]]) \<and>
   generation_step (example_external\<lparr>predict := (\<lambda>m t. replicate 5 [1, 2, 0, 0, 7])\<rparr>)
     (example_net\<lparr>data := Some [[1, 104, 105, 2, 0], [1, 104, 2, 0]]\<rparr>) 0 (zeros 5 5) =
     Inr ((zeros 5 5)[1 := [0, 0, 0, 0, 1]])"
proof -
  let ?u = "[0, 1, 2, 104, 105 :: nat]"
  let ?k2 = "example_external\<lparr>predict := (\<lambda>m t. replicate 5 [1, 2, 0, 0, 7])\<rparr>"
  let ?s2 = "example_net\<lparr>data := Some [[1, 104, 105, 2, 0], [1, 104, 2, 0]]\<rparr>"
  let ?row = "predict example_external () (zeros 5 5) ! 0"
  have fields: "unique_char_set example_net = unique_char_set ?s2"
    "max_string_length example_net = max_string_length ?s2"
    "char_to_int_dict example_net = char_to_int_dict ?s2"
    "int_to_char_dict example_net = int_to_char_dict ?s2"
    by simp_all
  have models: "map_option (\<lambda>m t. map argmax (predict example_external m t)) (model example_net) =
      map_option (\<lambda>m t. map argmax (predict ?k2 m t)) (model ?s2)"
    by (simp add: example_net_def example_external_def argmax_def)
  note det = sampler_determinism [OF fields models]
  have session: "unique_char_set example_net = Some ?u \<and> distinct ?u \<and> ?u \<noteq> [] \<and>
       char_to_int_dict example_net = fill_char_to_int ?u Map.empty \<and>
       int_to_char_dict example_net = fill_int_to_char ?u Map.empty \<and>
       model example_net = Some () \<and>
       0 < length (predict example_external () (zeros 5 5)) \<and>
       length ?row = length ?u \<and>
       (\<forall>row\<in>set (zeros 5 5). length row = length ?u)"
    by (simp add: example_net_def example_external_def zeros_def)
  with det obtain j where j: "j < length ?u"
    and greatest: "\<forall>a<length ?u. ?row ! a \<le> ?row ! j"
    and step1: "generation_step example_external example_net 0 (zeros 5 5) =
        Inr (if Suc 0 < length (zeros 5 5)
             then (zeros 5 5)[Suc 0 := (replicate (length ?u) 0)[j := 1]] else zeros 5 5)"
    and step2: "generation_step ?k2 ?s2 0 (zeros 5 5) =
        generation_step example_external example_net 0 (zeros 5 5)"
    by blast
  have "?row = [0, 0, 0, 0, 1]" by (simp add: example_external_def)
  with greatest have "(1::real) \<le> [0, 0, 0, 0, 1] ! j" by (auto dest: spec [of _ 4])
  with j have "j = 4"
    by (auto simp: less_Suc_eq numeral_eq_Suc nth_Cons')
  with step1 have "generation_step example_external example_net 0 (zeros 5 5) =
      Inr ((zeros 5 5)[1 := [0, 0, 0, 0, 1]])"
    by (simp add: zeros_def five_Suc)
  with step2 det show ?thesis by simp
qed

section \<open>The vocabulary\<close>

text \<open>
  C7. The constructor calls \<open>get_character_set\<close> once, on a loaded corpus and with both
  dictionaries empty. On such a state the method returns, the vocabulary is the sorted
  list of the distinct symbols of the joined corpus, the keys of \<open>char_to_int_dict\<close> are
  exactly these symbols, the keys of \<open>int_to_char_dict\<close> are exactly the indices below
  the size of the vocabulary, and each dictionary undoes the other: looking a symbol's
  index up gives the symbol back, and looking an index's symbol up gives the index back.
\<close>

theorem vocabulary_bijection:
  assumes "data s = Some d"
    and "char_to_int_dict s = Map.empty"
    and "int_to_char_dict s = Map.empty"
  shows "\<exists>evs s' u.
    get_character_set s = (evs, Inr s') \<and> unique_char_set s' = Some u \<and>
    sorted u \<and> distinct u \<and> set u = set (concat d) \<and>
    dom (char_to_int_dict s') = set u \<and>
    dom (int_to_char_dict s') = {0..<length u} \<and>
    (\<forall>c\<in>set u. \<exists>j<length u.
        char_to_int_dict s' c = Some j \<and> int_to_char_dict s' j = Some c) \<and>
    (\<forall>j<length u. \<exists>c\<in>set u.
        int_to_char_dict s' j = Some c \<and> char_to_int_dict s' c = Some j)"
proof -
  define u where "u = sort (remdups (concat d))"
  define s' where "s' = s\<lparr>unique_char_set := Some u,
    char_to_int_dict := fill_char_to_int u Map.empty,
    int_to_char_dict := fill_int_to_char u Map.empty\<rparr>"
  have du: "distinct u" and su: "sorted u" and setu: "set u = set (concat d)"
    by (simp_all add: u_def)
  have run: "\<exists>evs. get_character_set s = (evs, Inr s')"
    using assms by (simp add: get_character_set_def s'_def u_def Let_def)
  have c2i: "char_to_int_dict s' = fill_char_to_int u Map.empty"
    and i2c: "int_to_char_dict s' = fill_int_to_char u Map.empty"
    and ucs: "unique_char_set s' = Some u"
    by (simp_all add: s'_def)
  have dom_c2i: "dom (char_to_int_dict s') = set u"
  proof (rule set_eqI)
    fix c
    show "c \<in> dom (char_to_int_dict s') \<longleftrightarrow> c \<in> set u"
    proof (cases "c \<in> set u")
      case True
      with fill_char_to_int_in [OF du True, of Map.empty] show ?thesis
        by (auto simp: c2i)
    next
      case False
      with fill_char_to_int_notin [OF False, of Map.empty] show ?thesis
        by (simp add: c2i dom_def)
    qed
  qed
  have dom_i2c: "dom (int_to_char_dict s') = {0..<length u}"
    by (auto simp: i2c dom_def fill_int_to_char_eq)
  have fwd: "\<forall>c\<in>set u. \<exists>j<length u.
        char_to_int_dict s' c = Some j \<and> int_to_char_dict s' j = Some c"
    using fill_char_to_int_in [OF du, of _ Map.empty]
    by (fastforce simp: c2i i2c fill_int_to_char_eq)
  have bwd: "\<forall>j<length u. \<exists>c\<in>set u.
        int_to_char_dict s' j = Some c \<and> char_to_int_dict s' c = Some j"
    using fill_char_to_int_nth [OF du, of _ Map.empty]
    by (auto simp: c2i i2c fill_int_to_char_eq)
  from run ucs su du setu dom_c2i dom_i2c fwd bwd show ?thesis by blast
qed

text \<open>The corpus holding the one wrapped record of the text \<open>hi\<close>.\<close>

theorem vocabulary_bijection_witness:
  "\<exists>evs s' u.
    get_character_set ((init_fields :: unit net)\<lparr>data := Some [[1, 104, 105, 2, 0]]\<rparr>)
      = (evs, Inr s') \<and>
    unique_char_set s' = Some u \<and>
    sorted u \<and> distinct u \<and> set u = set (concat [[1, 104, 105, 2, 0]]) \<and>
    dom (char_to_int_dict s') = set u \<and>
    dom (int_to_char_dict s') = {0..<length u} \<and>
    (\<forall>c\<in>set u. \<exists>j<length u.
        char_to_int_dict s' c = Some j \<and> int_to_char_dict s' j = Some c) \<and>
    (\<forall>j<length u. \<exists>c\<in>set u.
        int_to_char_dict s' j = Some c \<and> char_to_int_dict s' c = Some j)"
  by (rule vocabulary_bijection) (simp_all add: init_fields_def)

section \<open>The schedule of the training loop\<close>

text \<open>
  C8. When \<open>train\<close> returns, its effects are those of the epochs \<open>0\<close> to
  \<open>num_epochs - 1\<close>, one after the other, and for every epoch \<open>index\<close>: its effects begin
  with the two empty records and the record \<open>Epoch index\<close>; the sampler's own record is
  among them exactly when \<open>index % 10 == 0\<close>; in that case the sampler returned a pair of
  strings on the session with the fitted model, and both are logged as test results for
  this epoch; otherwise no test result is logged at all; and weights are saved to a path
  exactly when \<open>index % 50 == 0\<close>, the path being \<open>Documents/Weights/\<close> followed by the
  layer count 4, \<open>LSTM_Size\<close>, the size of the vocabulary, \<open>_atEpoch\<close>, the epoch, \<open>_\<close>
  and the timestamp.
\<close>

theorem training_schedule:
  assumes "train k num_epochs s = (evs, Inr s')"
  shows "\<exists>u epochs. unique_char_set s = Some u \<and>
    length epochs = num_epochs \<and> evs = concat epochs \<and>
    (\<forall>index<num_epochs.
      take 3 (epochs ! index) = [Log INFO (Plain []), Log INFO (Plain []),
           Log INFO (Formatted (lit ''Epoch {0}'') [PyInt index])] \<and>
      ((Log INFO (Plain (lit ''Attempting to generate text.'')) \<in> set (epochs ! index))
         = (index mod 10 = 0)) \<and>
      (index mod 10 = 0 \<longrightarrow>
         (\<exists>m ints chars.
            snd (generate_text k (s\<lparr>model := Some m\<rparr>)) = Inr (ints, chars) \<and>
            Log TESTRESULT (Formatted (lit ''Epoch: {0}   Full Generated Int String: {1}'')
              [PyInt index, PyStr ints]) \<in> set (epochs ! index) \<and>
            Log TESTRESULT (Formatted (lit ''Epoch: {0}   Full Generated Char String: {1}'')
              [PyInt index, PyStr chars]) \<in> set (epochs ! index))) \<and>
      (index mod 10 \<noteq> 0 \<longrightarrow> (\<forall>msg. Log TESTRESULT msg \<notin> set (epochs ! index))) \<and>
      (\<forall>path. (SaveWeights path \<in> set (epochs ! index)) =
         (index mod 50 = 0 \<and>
          path = lit ''Documents/Weights/'' @ lit ''4'' @ lit ''LSTM_Size'' @ str_nat (length u)
            @ lit ''_atEpoch'' @ str_nat index @ lit ''_'' @ timestamp k index)))"
proof -
  from assms obtain d u features targets where
    u: "unique_char_set s = Some u"
    and loop: "train_loop k features targets [0..<num_epochs] s = (evs, Inr s')"
    by (auto simp: train_def split: option.splits sum.splits)
  from train_loop_epochs [OF loop] obtain epochs where
    epochs: "length epochs = num_epochs" "evs = concat epochs"
      "\<forall>n<num_epochs. \<exists>m s2.
        train_epoch k features targets ([0..<num_epochs] ! n) (s\<lparr>model := m\<rparr>)
          = (epochs ! n, Inr s2)"
    by auto
  have "take 3 (epochs ! index) = [Log INFO (Plain []), Log INFO (Plain []),
           Log INFO (Formatted (lit ''Epoch {0}'') [PyInt index])] \<and>
      ((Log INFO (Plain (lit ''Attempting to generate text.'')) \<in> set (epochs ! index))
         = (index mod 10 = 0)) \<and>
      (index mod 10 = 0 \<longrightarrow>
         (\<exists>m ints chars.
            snd (generate_text k (s\<lparr>model := Some m\<rparr>)) = Inr (ints, chars) \<and>
            Log TESTRESULT (Formatted (lit ''Epoch: {0}   Full Generated Int String: {1}'')
              [PyInt index, PyStr ints]) \<in> set (epochs ! index) \<and>
            Log TESTRESULT (Formatted (lit ''Epoch: {0}   Full Generated Char String: {1}'')
              [PyInt index, PyStr chars]) \<in> set (epochs ! index))) \<and>
      (index mod 10 \<noteq> 0 \<longrightarrow> (\<forall>msg. Log TESTRESULT msg \<notin> set (epochs ! index))) \<and>
      (\<forall>path. (SaveWeights path \<in> set (epochs ! index)) =
         (index mod 50 = 0 \<and>
          path = lit ''Documents/Weights/'' @ lit ''4'' @ lit ''LSTM_Size'' @ str_nat (length u)
            @ lit ''_atEpoch'' @ str_nat index @ lit ''_'' @ timestamp k index))"
    if index: "index < num_epochs" for index
  proof -
    from epochs(3) index obtain m0 s2 where
      epoch: "train_epoch k features targets index (s\<lparr>model := m0\<rparr>) = (epochs ! index, Inr s2)"
      by auto
    from u have "unique_char_set (s\<lparr>model := m0\<rparr>) = Some u" by simp
    from epoch_schedule [OF epoch this] show ?thesis
      by (elim conjE, intro conjI) (assumption | auto)+
  qed
  with u epochs(1,2) show ?thesis by blast
qed

theorem training_schedule_witness:
  "\<exists>evs s'. train example_external 2 example_net = (evs, Inr s') \<and>
   (\<exists>u epochs. unique_char_set example_net = Some u \<and>
    length epochs = 2 \<and> evs = concat epochs \<and>
    (\<forall>index<2.
      take 3 (epochs ! index) = [Log INFO (Plain []), Log INFO (Plain []),
           Log INFO (Formatted (lit ''Epoch {0}'') [PyInt index])] \<and>
      ((Log INFO (Plain (lit ''Attempting to generate text.'')) \<in> set (epochs ! index))
         = (index mod 10 = 0)) \<and>
      (index mod 10 = 0 \<longrightarrow>
         (\<exists>m ints chars.
            snd (generate_text example_external (example_net\<lparr>model := Some m\<rparr>))
              = Inr (ints, chars) \<and>
            Log TESTRESULT (Formatted (lit ''Epoch: {0}   Full Generated Int String: {1}'')
              [PyInt index, PyStr ints]) \<in> set (epochs ! index) \<and>
            Log TESTRESULT (Formatted (lit ''Epoch: {0}   Full Generated Char String: {1}'')
              [PyInt index, PyStr chars]) \<in> set (epochs ! index))) \<and>
      (index mod 10 \<noteq> 0 \<longrightarrow> (\<forall>msg. Log TESTRESULT msg \<notin> set (epochs ! index))) \<and>
      (\<forall>path. (SaveWeights path \<in> set (epochs ! index)) =
         (index mod 50 = 0 \<and>
          path = lit ''Documents/Weights/'' @ lit ''4'' @ lit ''LSTM_Size'' @ str_nat (length u)
            @ lit ''_atEpoch'' @ str_nat index @ lit ''_'' @ timestamp example_external index))))"
  using training_schedule [OF example_train] example_train by blast

section \<open>The rows of the sampling tensor\<close>

text \<open>
  C9. Take a session whose vocabulary is a list of distinct symbols with the two
  dictionaries built from it, and any model. Whenever the first write of \<open>generate_text\<close>
  succeeds, the tensor reached after any number \<open>n \<le> max_string_length\<close> of steps of the
  loop has \<open>max_string_length\<close> rows, its row 0 (when there is one) is the one-hot row of
  the start sentinel \<open>'\1'\<close>, none of its rows holds more than one 1, and the character
  string built in that step is empty or starts with the start sentinel. So the character
  string that \<open>generate_text\<close> returns is empty or starts with the start sentinel.
\<close>

theorem sampler_row_invariant:
  assumes "unique_char_set s = Some u"
    and "distinct u"
    and "char_to_int_dict s = fill_char_to_int u Map.empty"
    and "int_to_char_dict s = fill_int_to_char u Map.empty"
  shows "(\<forall>t0 n t ints chars.
      append_onehot s (zeros (max_string_length s) (length u)) 0 1 = Inr t0 \<and>
      n \<le> max_string_length s \<and>
      generate_loop k s [0..<n] (t0, [], []) = Inr (t, ints, chars) \<longrightarrow>
        length t = max_string_length s \<and>
        (0 < max_string_length s \<longrightarrow>
           (\<exists>j<length u. char_to_int_dict s 1 = Some j \<and>
              t ! 0 = (replicate (length u) 0)[j := 1])) \<and>
        (\<forall>row\<in>set t. count_list row 1 \<le> 1) \<and>
        (chars \<noteq> [] \<longrightarrow> hd chars = 1)) \<and>
    (\<forall>ints chars. snd (generate_text k s) = Inr (ints, chars) \<and> chars \<noteq> [] \<longrightarrow> hd chars = 1)"
proof -
  let ?M = "max_string_length s" and ?V = "length u"
  have prefix: "length t = ?M \<and>
        (0 < ?M \<longrightarrow> (\<exists>j<?V. char_to_int_dict s 1 = Some j \<and> t ! 0 = (replicate ?V 0)[j := 1])) \<and>
        (\<forall>row\<in>set t. count_list row 1 \<le> 1) \<and>
        (chars \<noteq> [] \<longrightarrow> hd chars = 1)"
    if init: "append_onehot s (zeros ?M ?V) 0 1 = Inr t0"
      and run: "generate_loop k s [0..<n] (t0, [], []) = Inr (t, ints, chars)"
    for t0 n t ints chars
  proof -
    have "\<forall>row\<in>set (zeros ?M ?V). length row = ?V" by (simp add: zeros_def)
    from append_onehot_cases [OF assms(1) init this] obtain j where
      j: "j < ?V" "char_to_int_dict s 1 = Some j"
         "t0 = (if 0 < length (zeros ?M ?V) then (zeros ?M ?V)[0 := (replicate ?V 0)[j := 1]]
               else zeros ?M ?V)"
      by blast
    have len0: "length t0 = ?M"
      using j(3) by (simp add: zeros_def)
    have first0: "0 < ?M \<longrightarrow> t0 ! 0 = (replicate ?V 0)[j := 1]"
      using j(3) by (simp add: zeros_def)
    have "set t0 \<subseteq> insert ((replicate ?V 0)[j := 1]) (set (zeros ?M ?V))"
      using j(3) set_update_subset_insert [of "zeros ?M ?V" 0 "(replicate ?V 0)[j := 1]"]
      by (auto split: if_splits)
    with j(1) have rows0: "\<forall>row\<in>set t0. row = replicate ?V 0 \<or>
        (\<exists>j<?V. row = (replicate ?V 0)[j := 1])"
      by (auto simp: zeros_def)
    from generate_loop_invariant [OF assms(1) run rows0] len0 first0
    have len: "length t = ?M"
      and first: "0 < ?M \<longrightarrow> t ! 0 = (replicate ?V 0)[j := 1]"
      and rows: "\<forall>row\<in>set t. row = replicate ?V 0 \<or> (\<exists>j<?V. row = (replicate ?V 0)[j := 1])"
      and strings: "if [0..<n] = [] then t = t0 \<and> (ints, chars) = ([], [])
         else (ints, chars) = decode_rows (int_to_char_dict s) t ([], [])"
      by auto
    have ones: "\<forall>row\<in>set t. count_list row 1 \<le> 1"
      using rows count_list_onehot_row by auto
    have start: "chars \<noteq> [] \<longrightarrow> hd chars = 1"
    proof
      assume ne: "chars \<noteq> []"
      with strings have dec: "(ints, chars) = decode_rows (int_to_char_dict s) t ([], [])"
        by (auto split: if_splits)
      have "0 < ?M"
      proof (rule ccontr)
        assume "\<not> 0 < ?M"
        with len dec ne show False by simp
      qed
      with first len j(1) have ci: "conversion_index (t ! 0) = Some j" and pos: "0 < length t"
        by simp_all
      from fill_char_to_int_in [OF assms(2), of 1 Map.empty] j(2) assms(3)
        fill_char_to_int_notin [of 1 u Map.empty]
      have "u ! j = 1" by (cases "1 \<in> set u") auto
      with j(1) assms(4) have "int_to_char_dict s j = Some 1"
        by (simp add: fill_int_to_char_eq)
      from decode_rows_first [where ?i2c = "int_to_char_dict s", OF pos ci this] dec
      show "hd chars = 1" by auto
    qed
    from len first j(1,2) ones start show ?thesis by blast
  qed
  have final: "hd chars = 1"
    if res: "snd (generate_text k s) = Inr (ints, chars)" and ne: "chars \<noteq> []"
    for ints chars
  proof -
    from res assms(1) obtain t0 t where
      "append_onehot s (zeros ?M ?V) 0 1 = Inr t0"
      "generate_loop k s [0..<?M] (t0, [], []) = Inr (t, ints, chars)"
      by (auto simp: generate_text_def bind_err_def split: sum.splits)
    from prefix [OF this] ne show ?thesis by simp
  qed
  from prefix final show ?thesis by blast
qed

theorem sampler_row_invariant_witness:
  "\<exists>t0 t ints chars.
     append_onehot example_net
       (zeros (max_string_length example_net) (length [0, 1, 2, 104, 105 :: nat])) 0 1 = Inr t0 \<and>
     generate_loop example_external example_net [0..<max_string_length example_net] (t0, [], [])
       = Inr (t, ints, chars) \<and>
     snd (generate_text example_external example_net) = Inr (ints, chars) \<and>
     length t = 5 \<and> t ! 0 = [0, 1, 0, 0, 0] \<and>
     (\<forall>row\<in>set t. count_list row 1 \<le> 1) \<and>
     chars = [1, 105, 105, 105, 105] \<and> hd chars = 1"
proof -
  let ?u = "[0, 1, 2, 104, 105 :: nat]"
  have ucs: "unique_char_set example_net = Some ?u"
    and c2i: "char_to_int_dict example_net = fill_char_to_int ?u Map.empty"
    and i2c: "int_to_char_dict example_net = fill_int_to_char ?u Map.empty"
    and len: "max_string_length example_net = 5"
    by (simp_all add: example_net_def)
  have du: "distinct ?u" by simp
  note inv = sampler_row_invariant [OF ucs du c2i i2c, of example_external]
  have res: "snd (generate_text example_external example_net)
      = Inr (lit ''1 4 4 4 4 '', [1, 105, 105, 105, 105])"
    by (simp add: example_generate_text)
  with ucs obtain t0 t where
    init: "append_onehot example_net (zeros (max_string_length example_net) (length ?u)) 0 1
       = Inr t0"
    and run: "generate_loop example_external example_net [0..<max_string_length example_net]
       (t0, [], []) = Inr (t, lit ''1 4 4 4 4 '', [1, 105, 105, 105, 105])"
    by (auto simp: generate_text_def bind_err_def split: sum.splits)
  from inv init run have
    "length t = max_string_length example_net \<and>
     (0 < max_string_length example_net \<longrightarrow>
        (\<exists>j<length ?u. char_to_int_dict example_net 1 = Some j \<and>
           t ! 0 = (replicate (length ?u) 0)[j := 1])) \<and>
     (\<forall>row\<in>set t. count_list row 1 \<le> 1) \<and>
     ([1, 105, 105, 105, 105 :: nat] \<noteq> [] \<longrightarrow> hd [1, 105, 105, 105, 105 :: nat] = 1)"
    by blast
  with len example_dicts(1) have "length t = 5" and "t ! 0 = [0, 1, 0, 0, 0]"
    and "\<forall>row\<in>set t. count_list row 1 \<le> 1"
    by (auto simp: five_Suc)
  with init run res show ?thesis by auto
qed

section \<open>Pruning the vocabulary while iterating over it\<close>

text \<open>
  C10. \<open>remove_extra_characters\<close> returns without an error on every session that has a
  vocabulary (every constructed session has one), for every dataset string and every
  minimal count. When the symbol at
  position \<open>i\<close> of a list of distinct symbols is rare, the loop removes it and goes on at
  position \<open>i + 1\<close> of the shortened list, where the symbol that followed the removed one
  now sits at position \<open>i\<close> and is never looked at. So rare symbols survive: on the small
  session, with its record as the dataset string and the default minimal count 250,
  the vocabulary left is \<open>['\1', 'h']\<close>, and \<open>'h'\<close> occurs once.
\<close>

theorem pruning_misses_rare_characters:
  "(\<forall>dataset_string min_required_count (s :: 'm net) u.
      unique_char_set s = Some u \<longrightarrow>
      (\<exists>evs s'. remove_extra_characters dataset_string min_required_count s = (evs, Inr s'))) \<and>
   (\<forall>dataset_string min_required_count xs i.
      distinct xs \<and> Suc i < length xs \<and>
      count_list dataset_string (xs ! i) < min_required_count \<longrightarrow>
      prune_loop dataset_string min_required_count xs i =
        prune_loop dataset_string min_required_count (remove1 (xs ! i) xs) (Suc i) \<and>
      remove1 (xs ! i) xs ! i = xs ! Suc i) \<and>
   snd (remove_extra_characters [1, 104, 105, 2, 0] 250 example_net)
     = Inr (example_net\<lparr>unique_char_set := Some [1, 104]\<rparr>) \<and>
   count_list [1, 104, 105, 2, 0] (104::nat) < 250"
proof (intro conjI allI impI)
  fix dataset_string min_required_count and s :: "'m net" and u
  assume "unique_char_set s = Some u"
  then show "\<exists>evs s'. remove_extra_characters dataset_string min_required_count s = (evs, Inr s')"
    by (simp add: remove_extra_characters_def Let_def)
next
  fix dataset_string :: pystr and min_required_count and xs :: "symbol list" and i
  assume a: "distinct xs \<and> Suc i < length xs \<and>
      count_list dataset_string (xs ! i) < min_required_count"
  then show "prune_loop dataset_string min_required_count xs i =
        prune_loop dataset_string min_required_count (remove1 (xs ! i) xs) (Suc i)"
    by (subst prune_loop.simps) simp
  from a remove1_nth_distinct [of xs i] show "remove1 (xs ! i) xs ! i = xs ! Suc i"
    by (simp add: nth_append)
next
  show "snd (remove_extra_characters [1, 104, 105, 2, 0] 250 example_net)
     = Inr (example_net\<lparr>unique_char_set := Some [1, 104]\<rparr>)"
    by (simp add: remove_extra_characters_def Let_def example_prune [simplified] example_net_def)
next
  show "count_list [1, 104, 105, 2, 0] (104::nat) < 250" by simp
qed

theorem pruning_misses_rare_characters_witness:
  "(\<exists>evs s'. remove_extra_characters [1, 104, 105, 2, 0] 250 example_net = (evs, Inr s')) \<and>
   prune_loop [1, 104, 105, 2, 0] 250 [0, 1, 2, 104, 105] 0 =
     prune_loop [1, 104, 105, 2, 0] 250 (remove1 ([0, 1, 2, 104, 105] ! 0) [0, 1, 2, 104, 105]) (Suc 0) \<and>
   remove1 ([0, 1, 2, 104, 105] ! 0) [0, 1, 2, 104, 105 :: nat] ! 0 = [0, 1, 2, 104, 105] ! Suc 0"
proof -
  have "unique_char_set example_net = Some [0, 1, 2, 104, 105]"
    by (simp add: example_net_def)
  moreover have "distinct [0, 1, 2, 104, 105 :: nat] \<and> Suc 0 < length [0, 1, 2, 104, 105 :: nat] \<and>
      count_list [1, 104, 105, 2, 0] ([0, 1, 2, 104, 105 :: nat] ! 0) < 250"
    by simp
  ultimately show ?thesis
    using pruning_misses_rare_characters by blast
qed

end
